theory Spec2Isabelle
  imports Main "HOL-Library.Word"
begin

section \<open>The chunk journal writer (package nbs, journal writer)\<close>

text \<open>
  A shallow embedding of the journal writer: the \<open>journalWriter\<close> struct, its
  constructors and its methods. Go's \<open>int\<close>/\<open>int64\<close> offsets are \<open>int\<close> (the journal is
  256 MiB, far from the 64-bit range), lengths and capacities are \<open>nat\<close>, the wrapping
  \<open>uint64\<close> statistic is a \<open>64 word\<close>, bytes are \<open>8 word\<close> and addresses are 20 bytes
  (\<open>160 word\<close>). A Go error return is the \<open>Inl\<close> branch of a sum (or \<open>Some e\<close> where the
  method returns only an error); a runtime panic is the error value \<open>PanicSliceBounds\<close>.
  The reader/writer lock is not modelled: every method is one atomic step.
\<close>

type_synonym byte = "8 word"
type_synonym addr = "160 word"

datatype error =
    IOError nat
  | ErrEOF
  | ErrNegativeOffset
  | ErrExceedsCapacity nat nat
  | ErrAlreadyExists
  | ErrFoundDirectory
  | ErrUnknownRecordKind nat
  | ErrHashMismatch addr addr
  | ErrCorruptRecord
  | ErrSeekOffset int
  | PanicSliceBounds

subsection \<open>The operating system's file\<close>

text \<open>
  \<open>os.File\<close> is not part of the repository. A file is its contents, the cursor used
  by \<open>Write\<close> and \<open>Seek\<close>, and the log of the mutating calls attempted on it. The
  environment decides which calls fail: \<open>fault f k\<close> is the error of the call attempted
  when \<open>k\<close> calls have been logged, \<open>rfault f\<close> the error of a positional read. A failed
  call is logged and leaves the contents as they were. \<open>WriteAt\<close> loops while bytes
  remain: with an empty slice it makes no system call, so it writes nothing and cannot
  fail (a negative offset is refused before the loop).
\<close>

datatype fileop = OpWriteAt int nat | OpWrite nat | OpSync | OpSeek int | OpClose

record osfile =
  fdata :: "byte list"
  fpos :: nat
  oplog :: "fileop list"
  fault :: "nat \<Rightarrow> error option"
  rfault :: "error option"

definition pwrite :: "byte list \<Rightarrow> nat \<Rightarrow> byte list \<Rightarrow> byte list" where
  "pwrite d i b =
     (if b = [] then d
      else take i (d @ replicate (i - length d) 0) @ b @ drop (i + length b) d)"

definition logop :: "osfile \<Rightarrow> fileop \<Rightarrow> osfile" where
  "logop f x = f\<lparr>oplog := oplog f @ [x]\<rparr>"

definition fileWriteAt :: "osfile \<Rightarrow> byte list \<Rightarrow> int \<Rightarrow> osfile \<times> nat \<times> error option" where
  "fileWriteAt f b off =
     (let f1 = logop f (OpWriteAt off (length b)) in
      if off < 0 then (f1, 0, Some ErrNegativeOffset)
      else if b = [] then (f1, 0, None)
      else case fault f (length (oplog f)) of
             Some e \<Rightarrow> (f1, 0, Some e)
           | None \<Rightarrow> (f1\<lparr>fdata := pwrite (fdata f) (nat off) b\<rparr>, length b, None))"

definition fileWrite :: "osfile \<Rightarrow> byte list \<Rightarrow> osfile \<times> nat \<times> error option" where
  "fileWrite f b =
     (let f1 = logop f (OpWrite (length b)) in
      case fault f (length (oplog f)) of
        Some e \<Rightarrow> (f1, 0, Some e)
      | None \<Rightarrow> (f1\<lparr>fdata := pwrite (fdata f) (fpos f) b, fpos := fpos f + length b\<rparr>,
                 length b, None))"

definition fileSync :: "osfile \<Rightarrow> osfile \<times> error option" where
  "fileSync f = (logop f OpSync, fault f (length (oplog f)))"

definition fileClose :: "osfile \<Rightarrow> osfile \<times> error option" where
  "fileClose f = (logop f OpClose, fault f (length (oplog f)))"

definition fileSeekStart :: "osfile \<Rightarrow> int \<Rightarrow> osfile \<times> int \<times> error option" where
  "fileSeekStart f off =
     (let f1 = logop f (OpSeek off) in
      if off < 0 then (f1, 0, Some ErrNegativeOffset)
      else case fault f (length (oplog f)) of
             Some e \<Rightarrow> (f1, 0, Some e)
           | None \<Rightarrow> (f1\<lparr>fpos := nat off\<rparr>, off, None))"

text \<open>
  \<open>ReadAt\<close> of \<open>os.File\<close>: a negative offset is an error, an empty destination reads
  nothing and succeeds, and a read that cannot fill the destination is an error
  (\<open>io.EOF\<close>). A successful read returns the filled destination; its count is the
  destination's length.
\<close>

definition fileReadAt :: "osfile \<Rightarrow> byte list \<Rightarrow> int \<Rightarrow> error + byte list" where
  "fileReadAt f p off =
     (if off < 0 then Inl ErrNegativeOffset
      else if p = [] then Inr []
      else case rfault f of
             Some e \<Rightarrow> Inl e
           | None \<Rightarrow>
               if nat off + length p \<le> length (fdata f)
               then Inr (take (length p) (drop (nat off) (fdata f)))
               else Inl ErrEOF)"

subsection \<open>Records, lookups and the writer\<close>

record CompressedChunk =
  H :: addr
  FullCompressedChunk :: "byte list"

definition emptyCompressedChunk :: CompressedChunk where
  "emptyCompressedChunk = \<lparr>H = 0, FullCompressedChunk = []\<rparr>"

datatype journalRecKind = chunkJournalRecKind | rootHashJournalRecKind | otherJournalRecKind nat

text \<open>
  A decoded journal record. \<open>payloadOffset\<close> and \<open>uncompressedPayloadSize\<close> are methods
  of the record in the source; their results are carried as fields here.
\<close>

record journalRec =
  reclen :: nat
  kind :: journalRecKind
  address :: addr
  payload :: "byte list"
  payloadOffset :: nat
  uncompressedPayloadSize :: "64 word"

record recLookup =
  journalOff :: int
  recordLen :: nat
  payloadOff :: nat

text \<open>
  The record codec lives in another file of the package; the writer takes it as a
  parameter. \<open>writeChunkRecord\<close> and \<open>writeRootHashRecord\<close> fill the slice they are
  given and are modelled by the bytes they leave in it.
\<close>

record codec =
  chunkRecordSize :: "CompressedChunk \<Rightarrow> nat \<times> nat"
  writeChunkRecord :: "byte list \<Rightarrow> CompressedChunk \<Rightarrow> byte list"
  rootHashRecordSize :: nat
  writeRootHashRecord :: "byte list \<Rightarrow> addr \<Rightarrow> byte list"
  readJournalRecord :: "byte list \<Rightarrow> error + journalRec"
  NewCompressedChunk :: "addr \<Rightarrow> byte list \<Rightarrow> error + CompressedChunk"

text \<open>
  The struct \<open>journalWriter\<close>. The slice \<open>buf\<close> is its backing array \<open>arr\<close> (whose
  length is \<open>cap(buf)\<close>) and its length \<open>blen\<close>: \<open>wr.buf[:l+n]\<close> only moves the length,
  and the bytes written through the returned view land in the array.
\<close>

record journalWriter =
  arr :: "byte list"
  blen :: nat
  lookups :: "addr \<rightharpoonup> recLookup"
  wfile :: osfile
  off :: int
  uncmpSz :: "64 word"
  path :: string

definition buf :: "journalWriter \<Rightarrow> byte list" where
  "buf wr = take (blen wr) (arr wr)"

definition journalWriterBuffSize :: nat where
  "journalWriterBuffSize = 1024 * 1024"

definition chunkJournalFileSize :: nat where
  "chunkJournalFileSize = 256 * 1024 * 1024"

definition offset :: "journalWriter \<Rightarrow> int" where
  "offset wr = off wr + int (blen wr)"

definition CurrentSize :: "journalWriter \<Rightarrow> int" where
  "CurrentSize wr = off wr"

definition flush :: "journalWriter \<Rightarrow> journalWriter \<times> error option" where
  "flush wr =
     (case fileWriteAt (wfile wr) (buf wr) (off wr) of
        (f, n, Some e) \<Rightarrow> (wr\<lparr>wfile := f\<rparr>, Some e)
      | (f, n, None) \<Rightarrow> (wr\<lparr>wfile := f, off := off wr + int (blen wr), blen := 0\<rparr>, None))"

text \<open>
  \<open>getBytes\<close> returns the view \<open>wr.buf[l : l+n]\<close> as its start \<open>l\<close> and length \<open>n\<close>
  in the backing array.
\<close>

definition getBytes :: "journalWriter \<Rightarrow> nat \<Rightarrow> journalWriter \<times> (error + nat \<times> nat)" where
  "getBytes wr n =
     (let c = length (arr wr); l = blen wr in
      if n > c then (wr, Inl (ErrExceedsCapacity n c))
      else
        (case (if int n > int c - int l then flush wr else (wr, None)) of
           (wr1, Some e) \<Rightarrow> (wr1, Inl e)
         | (wr1, None) \<Rightarrow>
             (let l1 = blen wr1 in (wr1\<lparr>blen := l1 + n\<rparr>, Inr (l1, n)))))"

text \<open>Writing \<open>v\<close> through a view that starts at \<open>l\<close>: the array keeps its length.\<close>

definition overlay :: "byte list \<Rightarrow> nat \<Rightarrow> byte list \<Rightarrow> byte list" where
  "overlay a l v =
     (let w = take (length a - l) v in take l a @ w @ drop (l + length w) a)"

definition view :: "byte list \<Rightarrow> nat \<Rightarrow> nat \<Rightarrow> byte list" where
  "view a l n = take n (drop l a)"

text \<open>Go's \<open>copy(dst, src)\<close>: the destination after the copy, and the count.\<close>

definition copy :: "byte list \<Rightarrow> byte list \<Rightarrow> byte list \<times> nat" where
  "copy dst src =
     (let k = min (length dst) (length src) in (take k src @ drop k dst, k))"

subsection \<open>Reading\<close>

text \<open>
  \<open>ReadAt\<close> returns the destination as it is left and the count. In the buffer branch
  \<open>wr.buf[off:]\<close> panics when the offset is beyond the buffer's length; in the file
  branch the offset is reset to 0 and the slice expression cannot fail.
\<close>

definition ReadAt :: "journalWriter \<Rightarrow> byte list \<Rightarrow> int \<Rightarrow> error + byte list \<times> nat" where
  "ReadAt wr p off0 =
     (if off0 < off wr then
        (let fread = nat (off wr - off0);
             bp = (if length p > fread then drop fread p else []);
             p1 = (if length p > fread then take fread p else p)
         in case fileReadAt (wfile wr) p1 off0 of
              Inl e \<Rightarrow> Inl e
            | Inr q \<Rightarrow>
                (case copy bp (drop 0 (buf wr)) of
                   (bq, k) \<Rightarrow> Inr (q @ bq, length q + k)))
      else
        (let boff = off0 - off wr in
         if boff > int (length (buf wr)) then Inl PanicSliceBounds
         else case copy p (drop (nat boff) (buf wr)) of
                (bq, k) \<Rightarrow> Inr (bq, k)))"

text \<open>
  \<open>Snapshot\<close>: \<open>openErr\<close> is the outcome of \<open>os.Open(wr.path)\<close>. The limited reader is
  modelled by the bytes it can deliver.
\<close>

definition Snapshot ::
  "journalWriter \<Rightarrow> error option \<Rightarrow> journalWriter \<times> (error + byte list \<times> int)" where
  "Snapshot wr openErr =
     (case flush wr of
        (wr1, Some e) \<Rightarrow> (wr1, Inl e)
      | (wr1, None) \<Rightarrow>
          (case openErr of
             Some e \<Rightarrow> (wr1, Inl e)
           | None \<Rightarrow> (wr1, Inr (take (nat (off wr1)) (fdata (wfile wr1)), off wr1))))"

subsection \<open>Writing\<close>

definition Write :: "journalWriter \<Rightarrow> byte list \<Rightarrow> journalWriter \<times> nat \<times> error option" where
  "Write wr p =
     (if length p > blen wr then
        (case flush wr of
           (wr1, Some e) \<Rightarrow> (wr1, 0, Some e)
         | (wr1, None) \<Rightarrow>
             (case fileWriteAt (wfile wr1) p (off wr1) of
                (f, n, err) \<Rightarrow> (wr1\<lparr>wfile := f, off := off wr1 + int n\<rparr>, n, err)))
      else
        (case getBytes wr (length p) of
           (wr1, Inl e) \<Rightarrow> (wr1, 0, Some e)
         | (wr1, Inr (l, n)) \<Rightarrow>
             (case copy (view (arr wr1) l n) p of
                (v, k) \<Rightarrow> (wr1\<lparr>arr := overlay (arr wr1) l v\<rparr>, k, None))))"

definition WriteChunk :: "codec \<Rightarrow> journalWriter \<Rightarrow> CompressedChunk \<Rightarrow> journalWriter \<times> error option" where
  "WriteChunk cd wr cc =
     (case chunkRecordSize cd cc of
        (l, po) \<Rightarrow>
          (let rec = \<lparr>journalOff = offset wr, recordLen = l, payloadOff = po\<rparr> in
           case getBytes wr (recordLen rec) of
             (wr1, Inl e) \<Rightarrow> (wr1, Some e)
           | (wr1, Inr (s, n)) \<Rightarrow>
               (wr1\<lparr>arr := overlay (arr wr1) s
                                (take n (writeChunkRecord cd (view (arr wr1) s n) cc)),
                     lookups := (lookups wr1)(H cc \<mapsto> rec)\<rparr>, None)))"

definition WriteRootHash :: "codec \<Rightarrow> journalWriter \<Rightarrow> addr \<Rightarrow> journalWriter \<times> error option" where
  "WriteRootHash cd wr root =
     (case getBytes wr (rootHashRecordSize cd) of
        (wr1, Inl e) \<Rightarrow> (wr1, Some e)
      | (wr1, Inr (s, n)) \<Rightarrow>
          (let wr2 = wr1\<lparr>arr := overlay (arr wr1) s
                                  (take n (writeRootHashRecord cd (view (arr wr1) s n) root))\<rparr>
           in case flush wr2 of
                (wr3, Some e) \<Rightarrow> (wr3, Some e)
              | (wr3, None) \<Rightarrow>
                  (case fileSync (wfile wr3) of (f, err) \<Rightarrow> (wr3\<lparr>wfile := f\<rparr>, err))))"

definition Close :: "journalWriter \<Rightarrow> journalWriter \<times> error option" where
  "Close wr =
     (case flush wr of
        (wr1, Some e) \<Rightarrow> (wr1, Some e)
      | (wr1, None) \<Rightarrow>
          (case fileSync (wfile wr1) of
             (f1, cerr1) \<Rightarrow>
               (let err1 = (case cerr1 of Some c \<Rightarrow> Some c | None \<Rightarrow> None) in
                case fileClose f1 of
                  (f2, cerr2) \<Rightarrow>
                    (let err2 = (case cerr2 of Some c \<Rightarrow> Some c | None \<Rightarrow> err1) in
                     (wr1\<lparr>wfile := f2\<rparr>, err2)))))"

subsection \<open>The lookup index\<close>

definition has :: "journalWriter \<Rightarrow> addr \<Rightarrow> bool" where
  "has wr h = (lookups wr h \<noteq> None)"

text \<open>
  \<open>getCompressed\<close>: the destination is \<open>make([]byte, l.recordLen)\<close>, all zeros. A panic
  inside \<open>ReadAt\<close> is not an error value and passes through; every error \<open>ReadAt\<close>
  returns takes the branch that returns the empty chunk and a nil error.
\<close>

definition getCompressed :: "codec \<Rightarrow> journalWriter \<Rightarrow> addr \<Rightarrow> error + CompressedChunk" where
  "getCompressed cd wr h =
     (case lookups wr h of
        None \<Rightarrow> Inr emptyCompressedChunk
      | Some l \<Rightarrow>
          (case ReadAt wr (replicate (recordLen l) 0) (journalOff l) of
             Inl PanicSliceBounds \<Rightarrow> Inl PanicSliceBounds
           | Inl e \<Rightarrow> Inr emptyCompressedChunk
           | Inr (b, n) \<Rightarrow>
               (case readJournalRecord cd b of
                  Inl e \<Rightarrow> Inl e
                | Inr rec \<Rightarrow>
                    if h \<noteq> address rec then Inl (ErrHashMismatch h (address rec))
                    else NewCompressedChunk cd h (payload rec))))"

definition uncompressedSize :: "journalWriter \<Rightarrow> 64 word" where
  "uncompressedSize wr = uncmpSz wr"

subsection \<open>Replay\<close>

text \<open>
  Modelled from the spec: \<open>processJournalRecords\<close> is in the codec's file, which is not
  among the sources. The spec: it forward-scans from offset 0, calls the callback with
  the offset and the record for each record, stops at the first record whose framing is
  invalid and returns the offset of the first invalid byte. \<open>frame\<close> is the codec's
  framing check and decoder on the bytes that start at the current offset; a record of
  length 0 or one that runs past the end of the file has no valid framing. When the
  callback fails the scan ends with that error and the zero offset.
\<close>

function processJournalRecords ::
  "(byte list \<Rightarrow> journalRec option) \<Rightarrow> byte list \<Rightarrow>
   (int \<Rightarrow> journalRec \<Rightarrow> 's \<Rightarrow> 's \<times> error option) \<Rightarrow> nat \<Rightarrow> 's \<Rightarrow> 's \<times> int \<times> error option"
where
  "processJournalRecords frame d cb i s =
     (case frame (drop i d) of
        None \<Rightarrow> (s, int i, None)
      | Some r \<Rightarrow>
          if reclen r = 0 \<or> i + reclen r > length d then (s, int i, None)
          else (case cb (int i) r s of
                  (s1, Some e) \<Rightarrow> (s1, 0, Some e)
                | (s1, None) \<Rightarrow> processJournalRecords frame d cb (i + reclen r) s1))"
  by pat_completeness auto
termination
  by (relation "measure (\<lambda>(frame, d, cb, i, s). length d - i)") auto

declare processJournalRecords.simps [simp del]

text \<open>
  The callback of \<open>ProcessJournal\<close>: its state is the writer and the named result
  \<open>last\<close> (here \<open>lastRoot\<close>), which starts as the zero hash.
\<close>

definition journalCallback ::
  "int \<Rightarrow> journalRec \<Rightarrow> journalWriter \<times> addr \<Rightarrow> (journalWriter \<times> addr) \<times> error option" where
  "journalCallback i r st =
     (case st of
        (wr, lastRoot) \<Rightarrow>
          (case kind r of
             chunkJournalRecKind \<Rightarrow>
               ((wr\<lparr>lookups := (lookups wr)(address r \<mapsto>
                        \<lparr>journalOff = i, recordLen = reclen r, payloadOff = payloadOffset r\<rparr>),
                     uncmpSz := uncmpSz wr + uncompressedPayloadSize r\<rparr>, lastRoot), None)
           | rootHashJournalRecKind \<Rightarrow> ((wr, address r), None)
           | otherJournalRecKind k \<Rightarrow> ((wr, lastRoot), Some (ErrUnknownRecordKind k))))"

definition ProcessJournal ::
  "(byte list \<Rightarrow> journalRec option) \<Rightarrow> journalWriter \<Rightarrow> journalWriter \<times> (error + addr)" where
  "ProcessJournal frame wr =
     (case processJournalRecords frame (fdata (wfile wr)) journalCallback 0 (wr, 0) of
        ((wr1, lastRoot), i, Some e) \<Rightarrow> (wr1\<lparr>off := i\<rparr>, Inl e)
      | ((wr1, lastRoot), i, None) \<Rightarrow> (wr1\<lparr>off := i\<rparr>, Inr lastRoot))"

subsection \<open>Constructors\<close>

text \<open>
  The file system seen by the constructors: what is at each path, and the outcomes the
  environment decides (\<open>filepath.Abs\<close>, a failing \<open>os.Stat\<close>, a failing
  \<open>os.OpenFile\<close>, the faults of the file once open).
\<close>

datatype node = RegularFile "byte list" | Directory

record osenv =
  absPath :: "string \<Rightarrow> error + string"
  nodes :: "string \<rightharpoonup> node"
  statErr :: "error option"
  openErr :: "error option"
  newFault :: "nat \<Rightarrow> error option"
  newRfault :: "error option"

datatype statResult = StatNotExist | StatError error | StatInfo bool

definition osStat :: "osenv \<Rightarrow> string \<Rightarrow> statResult" where
  "osStat env p =
     (case statErr env of
        Some e \<Rightarrow> StatError e
      | None \<Rightarrow>
          (case nodes env p of
             None \<Rightarrow> StatNotExist
           | Some nd \<Rightarrow> StatInfo (nd = Directory)))"

definition osOpenFile :: "osenv \<Rightarrow> byte list \<Rightarrow> error + osfile" where
  "osOpenFile env d =
     (case openErr env of
        Some e \<Rightarrow> Inl e
      | None \<Rightarrow> Inr \<lparr>fdata = d, fpos = 0, oplog = [], fault = newFault env,
                     rfault = newRfault env\<rparr>)"

definition newJournalWriter :: "osfile \<Rightarrow> string \<Rightarrow> journalWriter" where
  "newJournalWriter f p =
     \<lparr>arr = replicate journalWriterBuffSize 0, blen = 0, lookups = Map.empty,
      wfile = f, off = 0, uncmpSz = 0, path = p\<rparr>"

definition openJournalWriter ::
  "osenv \<Rightarrow> string \<Rightarrow> journalWriter option \<times> bool \<times> error option" where
  "openJournalWriter env p0 =
     (case absPath env p0 of
        Inl e \<Rightarrow> (None, False, Some e)
      | Inr p \<Rightarrow>
          (case osStat env p of
             StatNotExist \<Rightarrow> (None, False, None)
           | StatError e \<Rightarrow> (None, False, Some e)
           | StatInfo isDir \<Rightarrow>
               if isDir then (None, True, Some ErrFoundDirectory)
               else (case osOpenFile env (case nodes env p of Some (RegularFile d) \<Rightarrow> d | _ \<Rightarrow> []) of
                       Inl e \<Rightarrow> (None, True, Some e)
                     | Inr f \<Rightarrow> (Some (newJournalWriter f p), True, None))))"

definition batch :: nat where
  "batch = 1024 * 1024"

function zeroFill :: "osfile \<Rightarrow> nat \<Rightarrow> osfile \<times> error option" where
  "zeroFill f i =
     (if i < chunkJournalFileSize then
        (case fileWrite f (replicate batch 0) of
           (f1, n, Some e) \<Rightarrow> (f1, Some e)
         | (f1, n, None) \<Rightarrow> zeroFill f1 (i + batch))
      else (f, None))"
  by pat_completeness auto
termination
  by (relation "measure (\<lambda>(f, i). chunkJournalFileSize - i)") (auto simp: batch_def)

declare zeroFill.simps [simp del]

definition createJournalWriter :: "osenv \<Rightarrow> string \<Rightarrow> error + journalWriter" where
  "createJournalWriter env p0 =
     (case absPath env p0 of
        Inl e \<Rightarrow> Inl e
      | Inr p \<Rightarrow>
          (case osStat env p of
             StatInfo isDir \<Rightarrow> Inl ErrAlreadyExists
           | StatError e \<Rightarrow> Inl e
           | StatNotExist \<Rightarrow>
               (case osOpenFile env [] of
                  Inl e \<Rightarrow> Inl e
                | Inr f \<Rightarrow>
                    (case zeroFill f 0 of
                       (f1, Some e) \<Rightarrow> Inl e
                     | (f1, None) \<Rightarrow>
                         (case fileSync f1 of
                            (f2, Some e) \<Rightarrow> Inl e
                          | (f2, None) \<Rightarrow>
                              (case fileSeekStart f2 0 of
                                 (f3, i, Some e) \<Rightarrow> Inl e
                               | (f3, i, None) \<Rightarrow>
                                   if i \<noteq> 0 then Inl (ErrSeekOffset i)
                                   else Inr (newJournalWriter f3 p)))))))"

subsection \<open>A small codec and small writers for concrete runs\<close>

text \<open>
  A toy codec with the framing of the real one, \<open>[length, kind, address, payload]\<close>
  in one byte each but the payload: kind 2 is a chunk, kind 1 a root hash.
\<close>

definition toyDecode :: "byte list \<Rightarrow> journalRec" where
  "toyDecode b =
     \<lparr>reclen = length b,
      kind = (if b ! 1 = 2 then chunkJournalRecKind
              else if b ! 1 = 1 then rootHashJournalRecKind
              else otherJournalRecKind (unat (b ! 1))),
      address = ucast (b ! 2), payload = drop 3 b, payloadOffset = 3,
      uncompressedPayloadSize = of_nat (length b - 3)\<rparr>"

definition toyFrame :: "byte list \<Rightarrow> journalRec option" where
  "toyFrame bs =
     (case bs of
        [] \<Rightarrow> None
      | l # rest \<Rightarrow>
          if 3 \<le> unat l \<and> unat l \<le> length bs then Some (toyDecode (take (unat l) bs))
          else None)"

definition toyCodec :: codec where
  "toyCodec =
     \<lparr>chunkRecordSize = (\<lambda>cc. (3 + length (FullCompressedChunk cc), 3)),
      writeChunkRecord = (\<lambda>b cc. [of_nat (3 + length (FullCompressedChunk cc)), 2, ucast (H cc)]
                                   @ FullCompressedChunk cc),
      rootHashRecordSize = 3,
      writeRootHashRecord = (\<lambda>b a. [3, 1, ucast a]),
      readJournalRecord = (\<lambda>b. if 3 \<le> length b \<and> unat (b ! 0) = length b
                                 then Inr (toyDecode b) else Inl ErrCorruptRecord),
      NewCompressedChunk = (\<lambda>h d. Inr \<lparr>H = h, FullCompressedChunk = d\<rparr>)\<rparr>"

text \<open>Fault oracles: no call fails, one call fails, every call fails, every call from one on fails.\<close>

definition noFault :: "nat \<Rightarrow> error option" where
  "noFault k = None"

definition failAt :: "nat \<Rightarrow> error \<Rightarrow> nat \<Rightarrow> error option" where
  "failAt j e k = (if k = j then Some e else None)"

definition failAll :: "error \<Rightarrow> nat \<Rightarrow> error option" where
  "failAll e k = Some e"

definition failFrom :: "nat \<Rightarrow> nat \<Rightarrow> error option" where
  "failFrom j k = (if k < j then None else Some (IOError k))"

definition toyFile :: "byte list \<Rightarrow> (nat \<Rightarrow> error option) \<Rightarrow> error option \<Rightarrow> osfile" where
  "toyFile d flt rflt = \<lparr>fdata = d, fpos = 0, oplog = [], fault = flt, rfault = rflt\<rparr>"

definition toyWriter :: "osfile \<Rightarrow> journalWriter" where
  "toyWriter f =
     \<lparr>arr = replicate 8 0, blen = 0, lookups = Map.empty, wfile = f, off = 0,
      uncmpSz = 0, path = ''/tmp/j''\<rparr>"

definition toyChunk :: CompressedChunk where
  "toyChunk = \<lparr>H = 7, FullCompressedChunk = [9]\<rparr>"

definition toyEnv :: "(string \<rightharpoonup> node) \<Rightarrow> osenv" where
  "toyEnv nds =
     \<lparr>absPath = (\<lambda>p. Inr p), nodes = nds, statErr = None, openErr = None,
      newFault = noFault, newRfault = None\<rparr>"

subsection \<open>Sequences of operations\<close>

text \<open>
  The mutating operations of an open writer, and the writer after a sequence of them.
  \<open>advances a b\<close>: from \<open>a\<close> to \<open>b\<close> either the buffer grew in place, or \<open>off\<close> moved
  forward by at least what the buffer held.
\<close>

definition advances :: "journalWriter \<Rightarrow> journalWriter \<Rightarrow> bool" where
  "advances a b \<longleftrightarrow>
     (off b = off a \<and> blen a \<le> blen b) \<or> (off a + int (blen a) \<le> off b)"

datatype jop =
    DoWriteChunk CompressedChunk
  | DoWriteRootHash addr
  | DoWrite "byte list"
  | DoSnapshot "error option"
  | DoClose

fun step :: "codec \<Rightarrow> journalWriter \<Rightarrow> jop \<Rightarrow> journalWriter" where
  "step cd wr (DoWriteChunk cc) = fst (WriteChunk cd wr cc)"
| "step cd wr (DoWriteRootHash h) = fst (WriteRootHash cd wr h)"
| "step cd wr (DoWrite p) = fst (Write wr p)"
| "step cd wr (DoSnapshot e) = fst (Snapshot wr e)"
| "step cd wr DoClose = fst (Close wr)"

definition run :: "codec \<Rightarrow> journalWriter \<Rightarrow> jop list \<Rightarrow> journalWriter" where
  "run cd wr ops = foldl (step cd) wr ops"

subsection \<open>The journal as a list of records\<close>

text \<open>
  What replay is meant to compute, in the spec's words. \<open>journalRecords\<close> and
  \<open>journalEnd\<close> are the records the forward scan visits and the offset where it stops
  (the scan run with a callback that only collects). \<open>framedFrom\<close> says that a list of
  records is the run of validly framed records that starts at an offset, each beginning
  where the one before ends, up to the first offset whose framing is invalid.
  \<open>replayLookups\<close>, \<open>replayUncmpSz\<close> and \<open>replayLastRoot\<close> are the spec's three
  effects: a lookup entry \<open>{offset, length, payload_offset}\<close> per chunk record, the sum
  of the uncompressed payload sizes of the chunk records, and the address of the last
  root-hash record. \<open>firstUnknownKind\<close> is the kind tag of the first record that is
  neither; \<open>foldcb\<close> runs a callback over a list of records up to its first error.
\<close>

definition collect ::
  "int \<Rightarrow> journalRec \<Rightarrow> (int \<times> journalRec) list \<Rightarrow> (int \<times> journalRec) list \<times> error option" where
  "collect i r acc = (acc @ [(i, r)], None)"

definition journalRecords :: "(byte list \<Rightarrow> journalRec option) \<Rightarrow> byte list \<Rightarrow> (int \<times> journalRec) list" where
  "journalRecords frame d = fst (processJournalRecords frame d collect 0 [])"

definition journalEnd :: "(byte list \<Rightarrow> journalRec option) \<Rightarrow> byte list \<Rightarrow> int" where
  "journalEnd frame d = fst (snd (processJournalRecords frame d collect 0 []))"

definition validAt :: "(byte list \<Rightarrow> journalRec option) \<Rightarrow> byte list \<Rightarrow> nat \<Rightarrow> bool" where
  "validAt frame d i =
     (case frame (drop i d) of
        None \<Rightarrow> False
      | Some r \<Rightarrow> 0 < reclen r \<and> i + reclen r \<le> length d)"

fun framedFrom ::
  "(byte list \<Rightarrow> journalRec option) \<Rightarrow> byte list \<Rightarrow> nat \<Rightarrow> (int \<times> journalRec) list \<Rightarrow> int \<Rightarrow> bool" where
  "framedFrom frame d i [] e = (e = int i \<and> \<not> validAt frame d i)"
| "framedFrom frame d i ((j, r) # rs) e =
     (j = int i \<and> validAt frame d i \<and> frame (drop i d) = Some r
      \<and> framedFrom frame d (i + reclen r) rs e)"

fun replayLookups :: "(int \<times> journalRec) list \<Rightarrow> (addr \<rightharpoonup> recLookup) \<Rightarrow> (addr \<rightharpoonup> recLookup)" where
  "replayLookups [] m = m"
| "replayLookups ((i, r) # rs) m =
     replayLookups rs
       (if kind r = chunkJournalRecKind
        then m(address r \<mapsto> \<lparr>journalOff = i, recordLen = reclen r, payloadOff = payloadOffset r\<rparr>)
        else m)"

fun replayUncmpSz :: "(int \<times> journalRec) list \<Rightarrow> 64 word \<Rightarrow> 64 word" where
  "replayUncmpSz [] s = s"
| "replayUncmpSz ((i, r) # rs) s =
     replayUncmpSz rs (if kind r = chunkJournalRecKind then s + uncompressedPayloadSize r else s)"

fun replayLastRoot :: "(int \<times> journalRec) list \<Rightarrow> addr \<Rightarrow> addr" where
  "replayLastRoot [] l = l"
| "replayLastRoot ((i, r) # rs) l =
     replayLastRoot rs (if kind r = rootHashJournalRecKind then address r else l)"

fun firstUnknownKind :: "(int \<times> journalRec) list \<Rightarrow> nat option" where
  "firstUnknownKind [] = None"
| "firstUnknownKind ((i, r) # rs) =
     (case kind r of otherJournalRecKind k \<Rightarrow> Some k | _ \<Rightarrow> firstUnknownKind rs)"

fun foldcb ::
  "(int \<Rightarrow> journalRec \<Rightarrow> 's \<Rightarrow> 's \<times> error option) \<Rightarrow> (int \<times> journalRec) list \<Rightarrow> 's \<Rightarrow> 's \<times> error option" where
  "foldcb cb [] s = (s, None)"
| "foldcb cb ((i, r) # rs) s =
     (case cb i r s of (s1, Some e) \<Rightarrow> (s1, Some e) | (s1, None) \<Rightarrow> foldcb cb rs s1)"

section \<open>Properties\<close>

text \<open>
  C1. The claim: \<open>CurrentSize\<close> is the sum of the encoded lengths of all records
  written so far, the logical end \<open>off + len(buf)\<close>, records still in the buffer
  included. The code returns \<open>wr.off\<close> alone: after one chunk record of 4 bytes is
  written to a fresh writer and stays in the buffer, \<open>CurrentSize\<close> is 0 while
  \<open>offset\<close> is 4.
\<close>

theorem C1_CurrentSize_omits_buffer:
  "snd (WriteChunk toyCodec (toyWriter (toyFile (replicate 16 0) noFault None)) toyChunk) = None
   \<and> CurrentSize (fst (WriteChunk toyCodec (toyWriter (toyFile (replicate 16 0) noFault None)) toyChunk)) = 0
   \<and> offset (fst (WriteChunk toyCodec (toyWriter (toyFile (replicate 16 0) noFault None)) toyChunk)) = 4"
  by (simp add: WriteChunk_def getBytes_def toyCodec_def toyWriter_def toyChunk_def
        CurrentSize_def offset_def)

text \<open>
  C2 as stated: \<open>Close\<close> attempts flush, fsync and the file's close whatever fails.
  It does not when the flush fails: a chunk record of 4 bytes is written and stays in
  the buffer, the file's next call fails, and \<open>Close\<close> attempts only the flush's
  \<open>WriteAt\<close> of those 4 bytes and returns its error at once.
\<close>

theorem C2_Close_flush_failure_counterexample:
  "snd (WriteChunk toyCodec (toyWriter (toyFile (replicate 16 0) (failAt 0 (IOError 1)) None)) toyChunk)
     = None
   \<and> buf (fst (WriteChunk toyCodec (toyWriter (toyFile (replicate 16 0) (failAt 0 (IOError 1)) None)) toyChunk))
     = [4, 2, 7, 9]
   \<and> oplog (wfile (fst (Close (fst (WriteChunk toyCodec
              (toyWriter (toyFile (replicate 16 0) (failAt 0 (IOError 1)) None)) toyChunk)))))
     = [OpWriteAt 0 4]
   \<and> snd (Close (fst (WriteChunk toyCodec
              (toyWriter (toyFile (replicate 16 0) (failAt 0 (IOError 1)) None)) toyChunk)))
     = Some (IOError 1)"
  by (simp add: Close_def flush_def fileWriteAt_def logop_def WriteChunk_def getBytes_def
        offset_def overlay_def view_def toyCodec_def toyChunk_def toyWriter_def toyFile_def
        failAt_def buf_def)

text \<open>
  C2, amended. When the flush fails, \<open>Close\<close> returns the flush's error and attempts
  nothing else. When the flush succeeds, \<open>Close\<close> attempts both fsync and the file's
  close, whether or not fsync fails, and returns the close's error if there is one, else
  the fsync's error, else nil.
\<close>

theorem C2_Close_amended:
  "(snd (flush wr) \<noteq> None \<longrightarrow> Close wr = flush wr)
   \<and> (snd (flush wr) = None \<longrightarrow>
        oplog (wfile (fst (Close wr)))
          = oplog (wfile wr) @ [OpWriteAt (off wr) (length (buf wr)), OpSync, OpClose]
        \<and> snd (Close wr)
          = (case fault (wfile wr) (length (oplog (wfile wr)) + 2) of
               Some c \<Rightarrow> Some c
             | None \<Rightarrow> fault (wfile wr) (length (oplog (wfile wr)) + 1)))"
  by (auto simp: Close_def flush_def fileWriteAt_def fileSync_def fileClose_def logop_def Let_def
           split: option.splits prod.splits if_splits)

theorem C2_Close_amended_witness:
  "snd (flush ((toyWriter (toyFile (replicate 16 0) (failAt 0 (IOError 1)) None))\<lparr>blen := 4\<rparr>)) \<noteq> None
   \<and> Close ((toyWriter (toyFile (replicate 16 0) (failAt 0 (IOError 1)) None))\<lparr>blen := 4\<rparr>)
       = flush ((toyWriter (toyFile (replicate 16 0) (failAt 0 (IOError 1)) None))\<lparr>blen := 4\<rparr>)
   \<and> snd (flush ((toyWriter (toyFile (replicate 16 0) (failFrom 1) None))\<lparr>blen := 4\<rparr>)) = None
   \<and> oplog (wfile (fst (Close ((toyWriter (toyFile (replicate 16 0) (failFrom 1) None))\<lparr>blen := 4\<rparr>))))
       = [OpWriteAt 0 4, OpSync, OpClose]
   \<and> snd (Close ((toyWriter (toyFile (replicate 16 0) (failFrom 1) None))\<lparr>blen := 4\<rparr>))
       = Some (IOError 2)"
  using C2_Close_amended [of "(toyWriter (toyFile (replicate 16 0) (failAt 0 (IOError 1)) None))\<lparr>blen := 4\<rparr>"]
        C2_Close_amended [of "(toyWriter (toyFile (replicate 16 0) (failFrom 1) None))\<lparr>blen := 4\<rparr>"]
  by (simp add: flush_def fileWriteAt_def logop_def toyWriter_def toyFile_def failAt_def
        failFrom_def buf_def)

text \<open>
  C3. The claim: \<open>getCompressed\<close> passes every read and decode error on; a failing
  \<open>ReadAt\<close> is an error, not an empty success. The code returns the empty chunk and a
  nil error when \<open>ReadAt\<close> fails: here a chunk is written and flushed, its address is
  in the index, the file's positional read fails, and the result is the empty chunk
  with no error.
\<close>

theorem C3_getCompressed_swallows_read_error:
  "has (fst (flush (fst (WriteChunk toyCodec
          (toyWriter (toyFile (replicate 16 0) noFault (Some (IOError 5)))) toyChunk)))) 7
   \<and> ReadAt (fst (flush (fst (WriteChunk toyCodec
          (toyWriter (toyFile (replicate 16 0) noFault (Some (IOError 5)))) toyChunk))))
        (replicate 4 0) 0 = Inl (IOError 5)
   \<and> getCompressed toyCodec (fst (flush (fst (WriteChunk toyCodec
          (toyWriter (toyFile (replicate 16 0) noFault (Some (IOError 5)))) toyChunk)))) 7
       = Inr emptyCompressedChunk"
  by (simp add: has_def getCompressed_def ReadAt_def fileReadAt_def flush_def fileWriteAt_def
        overlay_def view_def
        logop_def WriteChunk_def getBytes_def toyCodec_def toyWriter_def toyFile_def noFault_def failAt_def failAll_def failFrom_def
        toyChunk_def offset_def buf_def)

text \<open>
  C10. For an address that is not in the lookup index, \<open>getCompressed\<close> returns the
  zero-valued chunk and a nil error.
\<close>

theorem C10_getCompressed_absent:
  "lookups wr h = None \<Longrightarrow> getCompressed cd wr h = Inr emptyCompressedChunk"
  by (simp add: getCompressed_def)

theorem C10_getCompressed_absent_witness:
  "lookups (toyWriter (toyFile [] noFault None)) 7 = None
   \<and> getCompressed toyCodec (toyWriter (toyFile [] noFault None)) 7 = Inr emptyCompressedChunk"
  using C10_getCompressed_absent [of "toyWriter (toyFile [] noFault None)" 7 toyCodec]
  by (simp add: toyWriter_def)

subsection \<open>Flush, reservation and the order of writes\<close>

lemma advances_refl: "advances a a"
  by (simp add: advances_def)

lemma advances_trans: "advances a b \<Longrightarrow> advances b c \<Longrightarrow> advances a c"
  by (auto simp: advances_def)

lemma advances_off: "advances a b \<Longrightarrow> off a \<le> off b \<and> offset a \<le> offset b"
  by (auto simp: advances_def offset_def)

lemma flush_ok:
  "snd (flush wr) = None \<Longrightarrow>
     off (fst (flush wr)) = off wr + int (blen wr) \<and> blen (fst (flush wr)) = 0
     \<and> arr (fst (flush wr)) = arr wr \<and> lookups (fst (flush wr)) = lookups wr"
  by (auto simp: flush_def split: prod.splits option.splits)

lemma flush_err:
  "snd (flush wr) = Some e \<Longrightarrow>
     off (fst (flush wr)) = off wr \<and> blen (fst (flush wr)) = blen wr
     \<and> arr (fst (flush wr)) = arr wr \<and> lookups (fst (flush wr)) = lookups wr"
  by (auto simp: flush_def split: prod.splits option.splits)

lemma flush_advances: "advances wr (fst (flush wr))"
  by (cases "snd (flush wr)") (auto simp: advances_def dest: flush_ok flush_err)

lemma getBytes_advances: "advances wr (fst (getBytes wr n))"
  using flush_advances [of wr]
  by (cases "flush wr") (auto simp: getBytes_def Let_def advances_def split: option.splits prod.splits if_splits)

lemma advances_fields:
  "off b = off a \<Longrightarrow> blen b = blen a \<Longrightarrow> advances a b"
  by (simp add: advances_def)

lemma WriteChunk_advances: "advances wr (fst (WriteChunk cd wr cc))"
proof -
  obtain l po where sz: "chunkRecordSize cd cc = (l, po)" by (cases "chunkRecordSize cd cc")
  obtain wr1 r where gb: "getBytes wr l = (wr1, r)" by (cases "getBytes wr l")
  have a1: "advances wr wr1" using getBytes_advances [of wr l] gb by simp
  show ?thesis
  proof (cases r)
    case (Inl e)
    then show ?thesis using a1 sz gb by (simp add: WriteChunk_def)
  next
    case (Inr v)
    then obtain s n where "r = Inr (s, n)" by (cases v) auto
    then show ?thesis using a1 sz gb
      by (auto simp: WriteChunk_def advances_def)
  qed
qed

lemma WriteRootHash_advances: "advances wr (fst (WriteRootHash cd wr h))"
proof -
  obtain wr1 r where gb: "getBytes wr (rootHashRecordSize cd) = (wr1, r)"
    by (cases "getBytes wr (rootHashRecordSize cd)")
  have a1: "advances wr wr1" using getBytes_advances [of wr "rootHashRecordSize cd"] gb by simp
  show ?thesis
  proof (cases r)
    case (Inl e)
    then show ?thesis using a1 gb by (simp add: WriteRootHash_def)
  next
    case (Inr v)
    then obtain s n where r: "r = Inr (s, n)" by (cases v) auto
    define wr2 where "wr2 = wr1\<lparr>arr := overlay (arr wr1) s
                (take n (writeRootHashRecord cd (view (arr wr1) s n) h))\<rparr>"
    have a2: "advances wr wr2" using a1 by (auto simp: wr2_def advances_def)
    have a3: "advances wr2 (fst (flush wr2))" by (rule flush_advances)
    have a4: "advances wr (fst (flush wr2))" by (rule advances_trans [OF a2 a3])
    have "off (fst (WriteRootHash cd wr h)) = off (fst (flush wr2))
          \<and> blen (fst (WriteRootHash cd wr h)) = blen (fst (flush wr2))"
      using gb r
      by (auto simp: WriteRootHash_def wr2_def Let_def fileSync_def split: prod.splits option.splits)
    then show ?thesis using a4 by (auto simp: advances_def)
  qed
qed

lemma Write_advances: "advances wr (fst (Write wr p))"
proof (cases "length p > blen wr")
  case True
  have a3: "advances wr (fst (flush wr))" by (rule flush_advances)
  show ?thesis
  proof (cases "snd (flush wr)")
    case None
    then show ?thesis using True flush_ok [OF None]
      by (auto simp: Write_def advances_def split: prod.splits option.splits)
  next
    case (Some e)
    then show ?thesis using True flush_err [OF Some]
      by (auto simp: Write_def advances_def split: prod.splits option.splits)
  qed
next
  case False
  obtain wr1 r where gb: "getBytes wr (length p) = (wr1, r)" by (cases "getBytes wr (length p)")
  have a1: "advances wr wr1" using getBytes_advances [of wr "length p"] gb by simp
  show ?thesis using False a1 gb
    by (auto simp: Write_def advances_def split: prod.splits sum.splits)
qed

lemma Snapshot_advances: "advances wr (fst (Snapshot wr e))"
  using flush_advances [of wr]
  by (auto simp: Snapshot_def advances_def split: prod.splits option.splits)

lemma Close_advances: "advances wr (fst (Close wr))"
  using flush_advances [of wr]
  by (auto simp: Close_def advances_def fileSync_def fileClose_def Let_def split: prod.splits option.splits)

lemma step_advances: "advances wr (step cd wr x)"
  by (cases x) (simp_all add: WriteChunk_advances WriteRootHash_advances Write_advances
      Snapshot_advances Close_advances)

lemma run_advances: "advances wr (run cd wr ops)"
  unfolding run_def
proof (induction ops arbitrary: wr)
  case Nil
  show ?case by (simp add: advances_refl)
next
  case (Cons x xs)
  have "advances wr (step cd wr x)" by (rule step_advances)
  moreover have "advances (step cd wr x) (foldl (step cd) (step cd wr x) xs)" by (rule Cons.IH)
  ultimately show ?case by (simp add: advances_trans)
qed


lemma getBytes_too_big:
  "length (arr wr) < n \<Longrightarrow> getBytes wr n = (wr, Inl (ErrExceedsCapacity n (length (arr wr))))"
  by (simp add: getBytes_def Let_def)

lemma getBytes_room:
  "n \<le> length (arr wr) \<Longrightarrow> blen wr \<le> length (arr wr) \<Longrightarrow> n \<le> length (arr wr) - blen wr \<Longrightarrow>
     getBytes wr n = (wr\<lparr>blen := blen wr + n\<rparr>, Inr (blen wr, n))"
  by (auto simp: getBytes_def Let_def)

lemma getBytes_flush_ok:
  "n \<le> length (arr wr) \<Longrightarrow> blen wr \<le> length (arr wr) \<Longrightarrow> length (arr wr) - blen wr < n \<Longrightarrow>
   snd (flush wr) = None \<Longrightarrow>
     getBytes wr n = ((fst (flush wr))\<lparr>blen := n\<rparr>, Inr (0, n))"
  using flush_ok [of wr]
  by (cases "flush wr") (auto simp: getBytes_def Let_def)

lemma getBytes_flush_err:
  "n \<le> length (arr wr) \<Longrightarrow> blen wr \<le> length (arr wr) \<Longrightarrow> length (arr wr) - blen wr < n \<Longrightarrow>
   snd (flush wr) = Some e \<Longrightarrow>
     getBytes wr n = (fst (flush wr), Inl e)"
  by (cases "flush wr") (auto simp: getBytes_def Let_def)

text \<open>
  C7. A reservation of \<open>n\<close> bytes with \<open>n\<close> above the capacity fails at once with the
  capacity error and leaves the writer exactly as it was. With \<open>n\<close> within the
  remaining room the bytes are allocated at the buffer's tail without a flush. With
  \<open>n\<close> above the remaining room but within the capacity the buffer is flushed first and
  the \<open>n\<close> bytes are then allocated at the start of the emptied buffer (and an error of
  that flush is returned). With \<open>n\<close> equal to the capacity the reservation succeeds,
  flushing first exactly when the buffer is not empty; the file write of that flush is
  taken not to fail.
\<close>

theorem C7_getBytes_reservation:
  "(length (arr wr) < n \<longrightarrow>
      getBytes wr n = (wr, Inl (ErrExceedsCapacity n (length (arr wr)))))
   \<and> (n \<le> length (arr wr) \<and> blen wr \<le> length (arr wr) \<and> n \<le> length (arr wr) - blen wr \<longrightarrow>
      getBytes wr n = (wr\<lparr>blen := blen wr + n\<rparr>, Inr (blen wr, n)))
   \<and> (n \<le> length (arr wr) \<and> blen wr \<le> length (arr wr) \<and> length (arr wr) - blen wr < n
        \<and> snd (flush wr) = None \<longrightarrow>
      getBytes wr n = ((fst (flush wr))\<lparr>blen := n\<rparr>, Inr (0, n))
      \<and> off (fst (getBytes wr n)) = off wr + int (blen wr))
   \<and> (n \<le> length (arr wr) \<and> blen wr \<le> length (arr wr) \<and> length (arr wr) - blen wr < n
        \<and> snd (flush wr) = Some e \<longrightarrow>
      getBytes wr n = (fst (flush wr), Inl e))
   \<and> (n = length (arr wr) \<and> blen wr \<le> length (arr wr) \<and> (0 < blen wr \<longrightarrow> snd (flush wr) = None) \<longrightarrow>
      snd (getBytes wr n) = Inr (0, n) \<and> blen (fst (getBytes wr n)) = n
      \<and> offset (fst (getBytes wr n)) = offset wr + int n
      \<and> wfile (fst (getBytes wr n)) = (if 0 < blen wr then wfile (fst (flush wr)) else wfile wr))"
proof (intro conjI impI)
  assume "length (arr wr) < n"
  then show "getBytes wr n = (wr, Inl (ErrExceedsCapacity n (length (arr wr))))"
    by (rule getBytes_too_big)
next
  assume "n \<le> length (arr wr) \<and> blen wr \<le> length (arr wr) \<and> n \<le> length (arr wr) - blen wr"
  then show "getBytes wr n = (wr\<lparr>blen := blen wr + n\<rparr>, Inr (blen wr, n))"
    by (simp add: getBytes_room)
next
  assume h: "n \<le> length (arr wr) \<and> blen wr \<le> length (arr wr) \<and> length (arr wr) - blen wr < n
        \<and> snd (flush wr) = None"
  then show "getBytes wr n = ((fst (flush wr))\<lparr>blen := n\<rparr>, Inr (0, n))"
    by (simp add: getBytes_flush_ok)
  then show "off (fst (getBytes wr n)) = off wr + int (blen wr)"
    using h flush_ok [of wr] by simp
next
  assume "n \<le> length (arr wr) \<and> blen wr \<le> length (arr wr) \<and> length (arr wr) - blen wr < n
        \<and> snd (flush wr) = Some e"
  then show "getBytes wr n = (fst (flush wr), Inl e)"
    by (simp add: getBytes_flush_err)
next
  assume h: "n = length (arr wr) \<and> blen wr \<le> length (arr wr) \<and> (0 < blen wr \<longrightarrow> snd (flush wr) = None)"
  have g: "getBytes wr n = (if 0 < blen wr then ((fst (flush wr))\<lparr>blen := n\<rparr>, Inr (0, n))
                            else (wr\<lparr>blen := blen wr + n\<rparr>, Inr (blen wr, n)))"
  proof (cases "0 < blen wr")
    case True
    then show ?thesis using h getBytes_flush_ok [of n wr] by auto
  next
    case False
    then show ?thesis using h getBytes_room [of n wr] by auto
  qed
  show "snd (getBytes wr n) = Inr (0, n)" using g by auto
  show "blen (fst (getBytes wr n)) = n" using g by auto
  show "offset (fst (getBytes wr n)) = offset wr + int n"
    using g h flush_ok [of wr] by (auto simp: offset_def)
  show "wfile (fst (getBytes wr n)) = (if 0 < blen wr then wfile (fst (flush wr)) else wfile wr)"
    using g by auto
qed


lemma getBytes_offset:
  "snd (getBytes wr n) = Inr m \<Longrightarrow> offset (fst (getBytes wr n)) = offset wr + int n"
  using flush_ok [of wr]
  by (cases "flush wr")
     (auto simp: getBytes_def Let_def offset_def split: option.splits prod.splits if_splits)

theorem C7_getBytes_reservation_witness:
  "getBytes (toyWriter (toyFile [] noFault None)) 9
     = (toyWriter (toyFile [] noFault None), Inl (ErrExceedsCapacity 9 8))
   \<and> getBytes ((toyWriter (toyFile [] noFault None))\<lparr>blen := 4\<rparr>) 3
     = ((toyWriter (toyFile [] noFault None))\<lparr>blen := 7\<rparr>, Inr (4, 3))
   \<and> snd (getBytes ((toyWriter (toyFile [] noFault None))\<lparr>blen := 4\<rparr>) 6) = Inr (0, 6)
   \<and> off (fst (getBytes ((toyWriter (toyFile [] noFault None))\<lparr>blen := 4\<rparr>) 6)) = 4
   \<and> snd (getBytes ((toyWriter (toyFile [] (failAll (IOError 1)) None))\<lparr>blen := 4\<rparr>) 6)
     = Inl (IOError 1)
   \<and> snd (getBytes ((toyWriter (toyFile [] noFault None))\<lparr>blen := 4\<rparr>) 8) = Inr (0, 8)
   \<and> snd (getBytes (toyWriter (toyFile [] noFault None)) 8) = Inr (0, 8)"
  using C7_getBytes_reservation [where wr = "toyWriter (toyFile [] noFault None)" and n = 9]
        C7_getBytes_reservation [where wr = "(toyWriter (toyFile [] noFault None))\<lparr>blen := 4\<rparr>" and n = 3]
        C7_getBytes_reservation [where wr = "(toyWriter (toyFile [] noFault None))\<lparr>blen := 4\<rparr>" and n = 6]
        C7_getBytes_reservation [where wr = "(toyWriter (toyFile [] (failAll (IOError 1)) None))\<lparr>blen := 4\<rparr>"
                                   and n = 6 and e = "IOError 1"]
        C7_getBytes_reservation [where wr = "(toyWriter (toyFile [] noFault None))\<lparr>blen := 4\<rparr>" and n = 8]
        C7_getBytes_reservation [where wr = "toyWriter (toyFile [] noFault None)" and n = 8]
  by (simp add: toyWriter_def toyFile_def noFault_def failAt_def failAll_def failFrom_def flush_def fileWriteAt_def logop_def buf_def)

text \<open>
  C9. Over any sequence of writer operations (\<open>WriteChunk\<close>, \<open>WriteRootHash\<close>,
  \<open>Write\<close>, \<open>Snapshot\<close>, \<open>Close\<close>), whatever fails, \<open>off\<close> never decreases and neither
  does the logical end \<open>off + len(buf)\<close>. A successful flush empties the buffer and
  advances \<open>off\<close> by exactly the bytes it emptied, so it preserves the logical end; a
  failed flush changes neither. An operation that leaves the buffer shorter has
  advanced \<open>off\<close> by at least the old buffer length (it flushed). A successful
  reservation, chunk write or root-hash write raises the logical end by exactly the
  reserved record length.
\<close>

theorem C9_off_never_decreases:
  "off wr \<le> off (run cd wr ops) \<and> offset wr \<le> offset (run cd wr ops)
   \<and> (snd (flush wr) = None \<longrightarrow>
        off (fst (flush wr)) = off wr + int (blen wr) \<and> blen (fst (flush wr)) = 0
        \<and> offset (fst (flush wr)) = offset wr)
   \<and> (snd (flush wr) \<noteq> None \<longrightarrow>
        off (fst (flush wr)) = off wr \<and> blen (fst (flush wr)) = blen wr)
   \<and> (blen (step cd wr x) < blen wr \<longrightarrow> off wr + int (blen wr) \<le> off (step cd wr x))
   \<and> (snd (getBytes wr n) = Inr m \<longrightarrow> offset (fst (getBytes wr n)) = offset wr + int n)
   \<and> (snd (WriteChunk cd wr cc) = None \<longrightarrow>
        offset (fst (WriteChunk cd wr cc)) = offset wr + int (fst (chunkRecordSize cd cc)))
   \<and> (snd (WriteRootHash cd wr h) = None \<longrightarrow>
        offset (fst (WriteRootHash cd wr h)) = offset wr + int (rootHashRecordSize cd))"
proof (intro conjI impI)
  show "off wr \<le> off (run cd wr ops)" "offset wr \<le> offset (run cd wr ops)"
    using advances_off [OF run_advances [of wr cd ops]] by simp_all
next
  assume h: "snd (flush wr) = None"
  show "off (fst (flush wr)) = off wr + int (blen wr)" "blen (fst (flush wr)) = 0"
       "offset (fst (flush wr)) = offset wr"
    using flush_ok [OF h] by (simp_all add: offset_def)
next
  assume "snd (flush wr) \<noteq> None"
  then obtain e where h: "snd (flush wr) = Some e" by auto
  show "off (fst (flush wr)) = off wr" "blen (fst (flush wr)) = blen wr"
    using flush_err [OF h] by simp_all
next
  assume "blen (step cd wr x) < blen wr"
  then show "off wr + int (blen wr) \<le> off (step cd wr x)"
    using step_advances [of wr cd x] by (auto simp: advances_def)
next
  assume "snd (getBytes wr n) = Inr m"
  then show "offset (fst (getBytes wr n)) = offset wr + int n"
    by (rule getBytes_offset)
next
  assume h: "snd (WriteChunk cd wr cc) = None"
  obtain l po where sz: "chunkRecordSize cd cc = (l, po)" by (cases "chunkRecordSize cd cc")
  obtain wr1 r where gb: "getBytes wr l = (wr1, r)" by (cases "getBytes wr l")
  from h sz gb obtain m where r: "r = Inr m"
    by (cases r) (auto simp: WriteChunk_def)
  have "offset wr1 = offset wr + int l" using getBytes_offset [of wr l m] gb r by simp
  then show "offset (fst (WriteChunk cd wr cc)) = offset wr + int (fst (chunkRecordSize cd cc))"
    using sz gb r by (cases m) (auto simp: WriteChunk_def offset_def)
next
  assume h: "snd (WriteRootHash cd wr h) = None"
  obtain wr1 r where gb: "getBytes wr (rootHashRecordSize cd) = (wr1, r)"
    by (cases "getBytes wr (rootHashRecordSize cd)")
  from h gb obtain s n where r: "r = Inr (s, n)"
    by (cases r) (auto simp: WriteRootHash_def)
  have o1: "offset wr1 = offset wr + int (rootHashRecordSize cd)"
    using getBytes_offset [of wr "rootHashRecordSize cd" "(s, n)"] gb r by simp
  define wr2 where "wr2 = wr1\<lparr>arr := overlay (arr wr1) s
                (take n (writeRootHashRecord cd (view (arr wr1) s n) h))\<rparr>"
  have o2: "offset wr2 = offset wr1" by (simp add: wr2_def offset_def)
  have f: "snd (flush wr2) = None" using h gb r
    by (auto simp: WriteRootHash_def wr2_def Let_def split: prod.splits option.splits)
  have "offset (fst (WriteRootHash cd wr h)) = offset (fst (flush wr2))"
    using gb r
    by (auto simp: WriteRootHash_def wr2_def Let_def fileSync_def offset_def split: prod.splits option.splits)
  then show "offset (fst (WriteRootHash cd wr h)) = offset wr + int (rootHashRecordSize cd)"
    using flush_ok [OF f] o1 o2 by (simp add: offset_def)
qed


theorem C9_off_never_decreases_witness:
  "off ((toyWriter (toyFile (replicate 16 0) noFault None))\<lparr>blen := 4\<rparr>)
     \<le> off (run toyCodec ((toyWriter (toyFile (replicate 16 0) noFault None))\<lparr>blen := 4\<rparr>)
               [DoWriteChunk toyChunk, DoWriteRootHash 5])
   \<and> snd (flush ((toyWriter (toyFile (replicate 16 0) noFault None))\<lparr>blen := 4\<rparr>)) = None
   \<and> off (fst (flush ((toyWriter (toyFile (replicate 16 0) noFault None))\<lparr>blen := 4\<rparr>))) = 4
   \<and> snd (flush ((toyWriter (toyFile (replicate 16 0) (failAll (IOError 1)) None))\<lparr>blen := 4\<rparr>)) \<noteq> None
   \<and> off (fst (flush ((toyWriter (toyFile (replicate 16 0) (failAll (IOError 1)) None))\<lparr>blen := 4\<rparr>))) = 0
   \<and> blen (step toyCodec ((toyWriter (toyFile (replicate 16 0) noFault None))\<lparr>blen := 4\<rparr>) (DoSnapshot None))
       < blen ((toyWriter (toyFile (replicate 16 0) noFault None))\<lparr>blen := 4\<rparr>)
   \<and> 4 \<le> off (step toyCodec ((toyWriter (toyFile (replicate 16 0) noFault None))\<lparr>blen := 4\<rparr>) (DoSnapshot None))
   \<and> snd (getBytes ((toyWriter (toyFile (replicate 16 0) noFault None))\<lparr>blen := 4\<rparr>) 3) = Inr (4, 3)
   \<and> offset (fst (getBytes ((toyWriter (toyFile (replicate 16 0) noFault None))\<lparr>blen := 4\<rparr>) 3)) = 7
   \<and> snd (WriteChunk toyCodec ((toyWriter (toyFile (replicate 16 0) noFault None))\<lparr>blen := 4\<rparr>) toyChunk) = None
   \<and> offset (fst (WriteChunk toyCodec ((toyWriter (toyFile (replicate 16 0) noFault None))\<lparr>blen := 4\<rparr>) toyChunk)) = 8
   \<and> snd (WriteRootHash toyCodec ((toyWriter (toyFile (replicate 16 0) noFault None))\<lparr>blen := 4\<rparr>) 5) = None
   \<and> offset (fst (WriteRootHash toyCodec ((toyWriter (toyFile (replicate 16 0) noFault None))\<lparr>blen := 4\<rparr>) 5)) = 7"
proof -
  define wA where "wA = (toyWriter (toyFile (replicate 16 0) noFault None))\<lparr>blen := 4\<rparr>"
  define wB where "wB = (toyWriter (toyFile (replicate 16 0) (failAll (IOError 1)) None))\<lparr>blen := 4\<rparr>"
  have sel: "off wA = 0" "blen wA = 4" "offset wA = 4" "off wB = 0"
    by (simp_all add: wA_def wB_def toyWriter_def offset_def)
  have cdc: "fst (chunkRecordSize toyCodec toyChunk) = 4" "rootHashRecordSize toyCodec = 3"
    by (simp_all add: toyCodec_def toyChunk_def)
  have fA: "snd (flush wA) = None"
    by (simp add: wA_def flush_def fileWriteAt_def logop_def buf_def toyWriter_def toyFile_def
          noFault_def)
  have fB: "snd (flush wB) = Some (IOError 1)"
    by (simp add: wB_def flush_def fileWriteAt_def logop_def buf_def toyWriter_def toyFile_def
          failAll_def)
  have sA: "blen (fst (Snapshot wA None)) = 0"
    using flush_ok [OF fA] fA by (cases "flush wA") (simp add: Snapshot_def)
  have gA: "snd (getBytes wA 3) = Inr (4, 3)"
    by (simp add: wA_def getBytes_def toyWriter_def)
  have cA: "snd (WriteChunk toyCodec wA toyChunk) = None"
    by (simp add: wA_def WriteChunk_def getBytes_def toyCodec_def toyChunk_def toyWriter_def)
  have rA: "snd (WriteRootHash toyCodec wA 5) = None"
    by (simp add: wA_def WriteRootHash_def getBytes_def flush_def fileWriteAt_def fileSync_def
          logop_def buf_def overlay_def view_def toyCodec_def toyWriter_def toyFile_def noFault_def)
  show ?thesis
    unfolding wA_def [symmetric] wB_def [symmetric]
    using C9_off_never_decreases
            [where wr = wA and cd = toyCodec and ops = "[DoWriteChunk toyChunk, DoWriteRootHash 5]"
               and x = "DoSnapshot None" and n = 3 and m = "(4, 3)" and cc = toyChunk and h = 5]
          C9_off_never_decreases [where wr = wB]
    by (simp add: sel cdc fA fB sA gA cA rA)
qed

lemma length_overlay: "length (overlay a l v) = length a"
  by (auto simp: overlay_def Let_def min_def)

lemma flush_oplog:
  "oplog (wfile (fst (flush wr))) = oplog (wfile wr) @ [OpWriteAt (off wr) (length (buf wr))]"
  by (auto simp: flush_def fileWriteAt_def logop_def Let_def split: option.splits)

lemma getBytes_oplog:
  "oplog (wfile (fst (getBytes wr n)))
     = oplog (wfile wr) @
       (if n \<le> length (arr wr) \<and> int (length (arr wr)) - int (blen wr) < int n
        then [OpWriteAt (off wr) (length (buf wr))] else [])"
  using flush_oplog [of wr]
  by (cases "flush wr") (auto simp: getBytes_def Let_def split: option.splits)

lemma flush_fdata:
  "snd (flush wr) = None \<Longrightarrow>
     fdata (wfile (fst (flush wr))) = pwrite (fdata (wfile wr)) (nat (off wr)) (buf wr)"
  by (auto simp: flush_def fileWriteAt_def logop_def pwrite_def Let_def split: option.splits if_splits)

lemma getBytes_view:
  "snd (getBytes wr n) = Inr (s, k) \<Longrightarrow> k = n \<and> blen (fst (getBytes wr n)) = s + n"
  by (cases "flush wr")
     (auto simp: getBytes_def Let_def split: option.splits prod.splits if_splits)

lemma WriteRootHash_fdata:
  assumes h: "snd (WriteRootHash cd wr h) = None"
  shows "fdata (wfile (fst (WriteRootHash cd wr h)))
       = (let wr1 = fst (getBytes wr (rootHashRecordSize cd));
              n = rootHashRecordSize cd; s = blen wr1 - n
          in pwrite (fdata (wfile wr1)) (nat (off wr1))
               (take (blen wr1)
                  (overlay (arr wr1) s (take n (writeRootHashRecord cd (view (arr wr1) s n) h)))))"
proof -
  obtain wr1 r where gb: "getBytes wr (rootHashRecordSize cd) = (wr1, r)"
    by (cases "getBytes wr (rootHashRecordSize cd)")
  from h gb obtain s n where r: "r = Inr (s, n)"
    by (cases r) (auto simp: WriteRootHash_def)
  have v: "n = rootHashRecordSize cd \<and> blen wr1 = s + rootHashRecordSize cd"
    using getBytes_view [of wr "rootHashRecordSize cd" s n] gb r by simp
  define wr2 where "wr2 = wr1\<lparr>arr := overlay (arr wr1) s
                (take n (writeRootHashRecord cd (view (arr wr1) s n) h))\<rparr>"
  have f: "snd (flush wr2) = None" using h gb r
    by (auto simp: WriteRootHash_def wr2_def Let_def split: prod.splits option.splits)
  have res: "fdata (wfile (fst (WriteRootHash cd wr h))) = fdata (wfile (fst (flush wr2)))"
    using gb r f
    by (auto simp: WriteRootHash_def wr2_def Let_def fileSync_def logop_def split: prod.splits option.splits)
  show ?thesis
    unfolding res flush_fdata [OF f] using gb v
    by (simp add: Let_def wr2_def buf_def)
qed

lemma getBytes_keeps:
  "lookups (fst (getBytes wr n)) = lookups wr \<and> arr (fst (getBytes wr n)) = arr wr"
  using flush_ok [of wr] flush_err [of wr]
  by (cases "flush wr") (auto simp: getBytes_def Let_def split: option.splits)

lemma getBytes_bound:
  "blen wr \<le> length (arr wr) \<Longrightarrow> snd (getBytes wr n) = Inr m \<Longrightarrow>
     blen (fst (getBytes wr n)) \<le> length (arr wr)"
  using flush_ok [of wr]
  by (cases "flush wr") (auto simp: getBytes_def Let_def split: option.splits if_splits)

lemma view_overlay:
  "length w = l \<Longrightarrow> s + l \<le> length a \<Longrightarrow> view (overlay a s w) s l = w"
  by (simp add: view_def overlay_def Let_def)

lemma WriteChunk_ok:
  assumes h: "snd (WriteChunk cd wr cc) = None"
  shows "fst (WriteChunk cd wr cc)
       = (let l = fst (chunkRecordSize cd cc);
              wr1 = fst (getBytes wr l);
              s = blen wr1 - l
          in wr1\<lparr>arr := overlay (arr wr) s (take l (writeChunkRecord cd (view (arr wr) s l) cc)),
                 lookups := (lookups wr)(H cc \<mapsto>
                    \<lparr>journalOff = offset wr, recordLen = l,
                     payloadOff = snd (chunkRecordSize cd cc)\<rparr>)\<rparr>)
         \<and> snd (getBytes wr (fst (chunkRecordSize cd cc)))
           = Inr (blen (fst (getBytes wr (fst (chunkRecordSize cd cc)))) - fst (chunkRecordSize cd cc),
                  fst (chunkRecordSize cd cc))"
proof -
  obtain l po where sz: "chunkRecordSize cd cc = (l, po)" by (cases "chunkRecordSize cd cc")
  obtain wr1 r where gb: "getBytes wr l = (wr1, r)" by (cases "getBytes wr l")
  from h sz gb obtain s n where r: "r = Inr (s, n)"
    by (cases r) (auto simp: WriteChunk_def)
  have v: "n = l \<and> blen wr1 = s + l" using getBytes_view [of wr l s n] gb r by simp
  have k: "lookups wr1 = lookups wr \<and> arr wr1 = arr wr" using getBytes_keeps [of wr l] gb by simp
  show ?thesis using sz gb r v k by (simp add: WriteChunk_def Let_def)
qed

lemma WriteChunk_err:
  assumes h: "snd (WriteChunk cd wr cc) = Some e"
  shows "snd (getBytes wr (fst (chunkRecordSize cd cc))) = Inl e
         \<and> fst (WriteChunk cd wr cc) = fst (getBytes wr (fst (chunkRecordSize cd cc)))
         \<and> lookups (fst (WriteChunk cd wr cc)) = lookups wr
         \<and> arr (fst (WriteChunk cd wr cc)) = arr wr"
proof -
  obtain l po where sz: "chunkRecordSize cd cc = (l, po)" by (cases "chunkRecordSize cd cc")
  obtain wr1 r where gb: "getBytes wr l = (wr1, r)" by (cases "getBytes wr l")
  have k: "lookups wr1 = lookups wr \<and> arr wr1 = arr wr" using getBytes_keeps [of wr l] gb by simp
  show ?thesis using h sz gb k by (cases r) (auto simp: WriteChunk_def)
qed

lemma WriteChunk_bytes:
  assumes h: "snd (WriteChunk cd wr cc) = None"
    and wf: "blen wr \<le> length (arr wr)"
    and len: "length (writeChunkRecord cd
                (view (arr wr) (blen (fst (WriteChunk cd wr cc)) - fst (chunkRecordSize cd cc))
                   (fst (chunkRecordSize cd cc))) cc) = fst (chunkRecordSize cd cc)"
  shows "view (arr (fst (WriteChunk cd wr cc)))
           (blen (fst (WriteChunk cd wr cc)) - fst (chunkRecordSize cd cc)) (fst (chunkRecordSize cd cc))
       = writeChunkRecord cd
           (view (arr wr) (blen (fst (WriteChunk cd wr cc)) - fst (chunkRecordSize cd cc))
              (fst (chunkRecordSize cd cc))) cc
       \<and> off (fst (WriteChunk cd wr cc))
           + int (blen (fst (WriteChunk cd wr cc)) - fst (chunkRecordSize cd cc)) = offset wr
       \<and> blen (fst (WriteChunk cd wr cc)) \<le> length (arr (fst (WriteChunk cd wr cc)))"
proof -
  define l where "l = fst (chunkRecordSize cd cc)"
  define wr1 where "wr1 = fst (getBytes wr l)"
  define s where "s = blen wr1 - l"
  have ok: "fst (WriteChunk cd wr cc)
       = wr1\<lparr>arr := overlay (arr wr) s (take l (writeChunkRecord cd (view (arr wr) s l) cc)),
              lookups := (lookups wr)(H cc \<mapsto>
                 \<lparr>journalOff = offset wr, recordLen = l, payloadOff = snd (chunkRecordSize cd cc)\<rparr>)\<rparr>"
    and gv: "snd (getBytes wr l) = Inr (s, l)"
    using WriteChunk_ok [OF h] by (simp_all add: Let_def l_def wr1_def s_def)
  have b: "blen wr1 = s + l" using getBytes_view [OF gv] by (simp add: wr1_def)
  have bd: "blen wr1 \<le> length (arr wr)" using getBytes_bound [OF wf gv] by (simp add: wr1_def)
  have o: "offset wr1 = offset wr + int l" using getBytes_offset [OF gv] by (simp add: wr1_def)
  have bw: "blen (fst (WriteChunk cd wr cc)) = blen wr1" using ok by simp
  have ln: "length (writeChunkRecord cd (view (arr wr) s l) cc) = l"
    using len bw by (simp add: l_def [symmetric] s_def)
  have "view (overlay (arr wr) s (take l (writeChunkRecord cd (view (arr wr) s l) cc))) s l
          = take l (writeChunkRecord cd (view (arr wr) s l) cc)"
    using ln b bd by (intro view_overlay) auto
  then have v: "view (arr (fst (WriteChunk cd wr cc))) s l = writeChunkRecord cd (view (arr wr) s l) cc"
    using ok ln by simp
  have o2: "off (fst (WriteChunk cd wr cc)) + int s = offset wr"
    using ok o b by (simp add: offset_def)
  have bd2: "blen (fst (WriteChunk cd wr cc)) \<le> length (arr (fst (WriteChunk cd wr cc)))"
    using ok bd by (simp add: length_overlay)
  show ?thesis using v o2 bd2 bw by (simp add: l_def [symmetric] s_def)
qed

text \<open>
  C6. \<open>WriteChunk\<close> leaves the file as the reservation alone leaves it: it never calls
  fsync, and the only file call it can cause is the flush of a reservation that lacks
  room. On success it has reserved the record's length, has written the serialized
  record through the reserved view (the bytes of the record are in the buffer at the
  logical offset the writer had), and has inserted the lookup entry
  \<open>{offset, length, payload_offset}\<close> under the chunk's address; when the reservation
  fails it returns that error and inserts nothing. A successful \<open>WriteRootHash\<close> has,
  after its reservation, written the whole buffer (the root-hash record included) to the
  file at \<open>off\<close> and then fsynced, both without error, and leaves the buffer empty with
  \<open>off\<close> at the new logical end.
\<close>

theorem C6_root_hash_is_the_barrier:
  "wfile (fst (WriteChunk cd wr cc)) = wfile (fst (getBytes wr (fst (chunkRecordSize cd cc))))
   \<and> oplog (wfile (fst (WriteChunk cd wr cc)))
       = oplog (wfile wr) @
         (if fst (chunkRecordSize cd cc) \<le> length (arr wr)
             \<and> int (length (arr wr)) - int (blen wr) < int (fst (chunkRecordSize cd cc))
          then [OpWriteAt (off wr) (length (buf wr))] else [])
   \<and> (snd (WriteRootHash cd wr h) = None \<longrightarrow>
        blen (fst (WriteRootHash cd wr h)) = 0
        \<and> off (fst (WriteRootHash cd wr h)) = offset wr + int (rootHashRecordSize cd)
        \<and> oplog (wfile (fst (WriteRootHash cd wr h)))
            = oplog (wfile (fst (getBytes wr (rootHashRecordSize cd))))
              @ [OpWriteAt (off (fst (getBytes wr (rootHashRecordSize cd))))
                           (length (buf (fst (getBytes wr (rootHashRecordSize cd))))),
                 OpSync]
        \<and> fault (wfile wr) (length (oplog (wfile (fst (getBytes wr (rootHashRecordSize cd))))) + 1) = None
        \<and> fdata (wfile (fst (WriteRootHash cd wr h)))
            = (let wr1 = fst (getBytes wr (rootHashRecordSize cd));
                   n = rootHashRecordSize cd; s = blen wr1 - n
               in pwrite (fdata (wfile wr1)) (nat (off wr1))
                    (take (blen wr1)
                       (overlay (arr wr1) s
                          (take n (writeRootHashRecord cd (view (arr wr1) s n) h))))))
   \<and> (snd (WriteChunk cd wr cc) = None \<longrightarrow>
        fst (WriteChunk cd wr cc)
          = (let l = fst (chunkRecordSize cd cc);
                 wr1 = fst (getBytes wr l);
                 s = blen wr1 - l
             in wr1\<lparr>arr := overlay (arr wr) s (take l (writeChunkRecord cd (view (arr wr) s l) cc)),
                    lookups := (lookups wr)(H cc \<mapsto>
                       \<lparr>journalOff = offset wr, recordLen = l,
                        payloadOff = snd (chunkRecordSize cd cc)\<rparr>)\<rparr>))
   \<and> (snd (WriteChunk cd wr cc) = None \<and> blen wr \<le> length (arr wr)
        \<and> length (writeChunkRecord cd
                    (view (arr wr) (blen (fst (WriteChunk cd wr cc)) - fst (chunkRecordSize cd cc))
                       (fst (chunkRecordSize cd cc))) cc) = fst (chunkRecordSize cd cc) \<longrightarrow>
        view (arr (fst (WriteChunk cd wr cc)))
             (blen (fst (WriteChunk cd wr cc)) - fst (chunkRecordSize cd cc))
             (fst (chunkRecordSize cd cc))
          = writeChunkRecord cd
              (view (arr wr) (blen (fst (WriteChunk cd wr cc)) - fst (chunkRecordSize cd cc))
                 (fst (chunkRecordSize cd cc))) cc
        \<and> off (fst (WriteChunk cd wr cc))
            + int (blen (fst (WriteChunk cd wr cc)) - fst (chunkRecordSize cd cc)) = offset wr
        \<and> blen (fst (WriteChunk cd wr cc)) \<le> length (arr (fst (WriteChunk cd wr cc))))
   \<and> (snd (WriteChunk cd wr cc) = Some e \<longrightarrow>
        snd (getBytes wr (fst (chunkRecordSize cd cc))) = Inl e
        \<and> fst (WriteChunk cd wr cc) = fst (getBytes wr (fst (chunkRecordSize cd cc)))
        \<and> lookups (fst (WriteChunk cd wr cc)) = lookups wr
        \<and> arr (fst (WriteChunk cd wr cc)) = arr wr)"
proof (intro conjI impI)
  obtain l po where sz: "chunkRecordSize cd cc = (l, po)" by (cases "chunkRecordSize cd cc")
  obtain wr1 r where gb: "getBytes wr l = (wr1, r)" by (cases "getBytes wr l")
  show w: "wfile (fst (WriteChunk cd wr cc)) = wfile (fst (getBytes wr (fst (chunkRecordSize cd cc))))"
    using sz gb by (auto simp: WriteChunk_def split: sum.splits)
  show "oplog (wfile (fst (WriteChunk cd wr cc)))
       = oplog (wfile wr) @
         (if fst (chunkRecordSize cd cc) \<le> length (arr wr)
             \<and> int (length (arr wr)) - int (blen wr) < int (fst (chunkRecordSize cd cc))
          then [OpWriteAt (off wr) (length (buf wr))] else [])"
    unfolding w by (rule getBytes_oplog)
next
  assume h: "snd (WriteRootHash cd wr h) = None"
  obtain wr1 r where gb: "getBytes wr (rootHashRecordSize cd) = (wr1, r)"
    by (cases "getBytes wr (rootHashRecordSize cd)")
  from h gb obtain s n where r: "r = Inr (s, n)"
    by (cases r) (auto simp: WriteRootHash_def)
  have o1: "offset wr1 = offset wr + int (rootHashRecordSize cd)"
    using getBytes_offset [of wr "rootHashRecordSize cd" "(s, n)"] gb r by simp
  define wr2 where "wr2 = wr1\<lparr>arr := overlay (arr wr1) s
                (take n (writeRootHashRecord cd (view (arr wr1) s n) h))\<rparr>"
  have f: "snd (flush wr2) = None" using h gb r
    by (auto simp: WriteRootHash_def wr2_def Let_def split: prod.splits option.splits)
  have res: "fst (WriteRootHash cd wr h) = (fst (flush wr2))\<lparr>wfile := logop (wfile (fst (flush wr2))) OpSync\<rparr>"
    using gb r f
    by (auto simp: WriteRootHash_def wr2_def Let_def fileSync_def split: prod.splits option.splits)
  have sy: "snd (fileSync (wfile (fst (flush wr2)))) = None"
    using h gb r f
    by (auto simp: WriteRootHash_def wr2_def Let_def split: prod.splits option.splits)
  show "blen (fst (WriteRootHash cd wr h)) = 0" using res flush_ok [OF f] by simp
  show "off (fst (WriteRootHash cd wr h)) = offset wr + int (rootHashRecordSize cd)"
    using res flush_ok [OF f] o1 by (simp add: offset_def wr2_def)
  have lb: "length (buf wr2) = length (buf wr1)" by (simp add: buf_def wr2_def length_overlay)
  show "oplog (wfile (fst (WriteRootHash cd wr h)))
            = oplog (wfile (fst (getBytes wr (rootHashRecordSize cd))))
              @ [OpWriteAt (off (fst (getBytes wr (rootHashRecordSize cd))))
                           (length (buf (fst (getBytes wr (rootHashRecordSize cd))))),
                 OpSync]"
    using res flush_oplog [of wr2] gb lb by (simp add: logop_def wr2_def)
  have fl: "fault (wfile (fst (flush wr2))) = fault (wfile wr)"
  proof -
    have "fault (wfile (fst (flush wr2))) = fault (wfile wr2)"
      by (auto simp: flush_def fileWriteAt_def logop_def Let_def split: option.splits)
    moreover have "fault (wfile wr1) = fault (wfile wr)"
      using gb by (cases "flush wr")
        (auto simp: getBytes_def flush_def fileWriteAt_def logop_def Let_def split: option.splits if_splits)
    ultimately show ?thesis by (simp add: wr2_def)
  qed
  show "fault (wfile wr) (length (oplog (wfile (fst (getBytes wr (rootHashRecordSize cd))))) + 1) = None"
    using sy fl flush_oplog [of wr2] gb by (simp add: fileSync_def wr2_def)
  show "fdata (wfile (fst (WriteRootHash cd wr h)))
            = (let wr1 = fst (getBytes wr (rootHashRecordSize cd));
                   n = rootHashRecordSize cd; s = blen wr1 - n
               in pwrite (fdata (wfile wr1)) (nat (off wr1))
                    (take (blen wr1)
                       (overlay (arr wr1) s
                          (take n (writeRootHashRecord cd (view (arr wr1) s n) h)))))"
    by (rule WriteRootHash_fdata [OF h])
next
  assume "snd (WriteChunk cd wr cc) = None"
  then show "fst (WriteChunk cd wr cc)
          = (let l = fst (chunkRecordSize cd cc);
                 wr1 = fst (getBytes wr l);
                 s = blen wr1 - l
             in wr1\<lparr>arr := overlay (arr wr) s (take l (writeChunkRecord cd (view (arr wr) s l) cc)),
                    lookups := (lookups wr)(H cc \<mapsto>
                       \<lparr>journalOff = offset wr, recordLen = l,
                        payloadOff = snd (chunkRecordSize cd cc)\<rparr>)\<rparr>)"
    using WriteChunk_ok [of cd wr cc] by simp
next
  assume a: "snd (WriteChunk cd wr cc) = None \<and> blen wr \<le> length (arr wr)
        \<and> length (writeChunkRecord cd
                    (view (arr wr) (blen (fst (WriteChunk cd wr cc)) - fst (chunkRecordSize cd cc))
                       (fst (chunkRecordSize cd cc))) cc) = fst (chunkRecordSize cd cc)"
  have b: "view (arr (fst (WriteChunk cd wr cc)))
             (blen (fst (WriteChunk cd wr cc)) - fst (chunkRecordSize cd cc))
             (fst (chunkRecordSize cd cc))
          = writeChunkRecord cd
              (view (arr wr) (blen (fst (WriteChunk cd wr cc)) - fst (chunkRecordSize cd cc))
                 (fst (chunkRecordSize cd cc))) cc
        \<and> off (fst (WriteChunk cd wr cc))
            + int (blen (fst (WriteChunk cd wr cc)) - fst (chunkRecordSize cd cc)) = offset wr
        \<and> blen (fst (WriteChunk cd wr cc)) \<le> length (arr (fst (WriteChunk cd wr cc)))"
    using a by (intro WriteChunk_bytes) simp_all
  show "view (arr (fst (WriteChunk cd wr cc)))
             (blen (fst (WriteChunk cd wr cc)) - fst (chunkRecordSize cd cc))
             (fst (chunkRecordSize cd cc))
          = writeChunkRecord cd
              (view (arr wr) (blen (fst (WriteChunk cd wr cc)) - fst (chunkRecordSize cd cc))
                 (fst (chunkRecordSize cd cc))) cc"
    using b by simp
  show "off (fst (WriteChunk cd wr cc))
            + int (blen (fst (WriteChunk cd wr cc)) - fst (chunkRecordSize cd cc)) = offset wr"
    using b by simp
  show "blen (fst (WriteChunk cd wr cc)) \<le> length (arr (fst (WriteChunk cd wr cc)))"
    using b by simp
next
  assume a: "snd (WriteChunk cd wr cc) = Some e"
  show "snd (getBytes wr (fst (chunkRecordSize cd cc))) = Inl e"
       "fst (WriteChunk cd wr cc) = fst (getBytes wr (fst (chunkRecordSize cd cc)))"
       "lookups (fst (WriteChunk cd wr cc)) = lookups wr"
       "arr (fst (WriteChunk cd wr cc)) = arr wr"
    using WriteChunk_err [OF a] by (simp_all add: getBytes_keeps)
qed

theorem C6_root_hash_is_the_barrier_witness:
  "snd (WriteRootHash toyCodec ((toyWriter (toyFile (replicate 16 0) noFault None))\<lparr>blen := 4\<rparr>) 5) = None
   \<and> blen (fst (WriteRootHash toyCodec ((toyWriter (toyFile (replicate 16 0) noFault None))\<lparr>blen := 4\<rparr>) 5)) = 0
   \<and> off (fst (WriteRootHash toyCodec ((toyWriter (toyFile (replicate 16 0) noFault None))\<lparr>blen := 4\<rparr>) 5)) = 7
   \<and> oplog (wfile (fst (WriteRootHash toyCodec ((toyWriter (toyFile (replicate 16 0) noFault None))\<lparr>blen := 4\<rparr>) 5)))
       = [OpWriteAt 0 7, OpSync]
   \<and> oplog (wfile (fst (WriteChunk toyCodec ((toyWriter (toyFile (replicate 16 0) noFault None))\<lparr>blen := 4\<rparr>) toyChunk)))
       = []
   \<and> snd (WriteChunk toyCodec ((toyWriter (toyFile (replicate 16 0) noFault None))\<lparr>blen := 4\<rparr>) toyChunk) = None
   \<and> lookups (fst (WriteChunk toyCodec ((toyWriter (toyFile (replicate 16 0) noFault None))\<lparr>blen := 4\<rparr>) toyChunk)) 7
       = Some \<lparr>journalOff = 4, recordLen = 4, payloadOff = 3\<rparr>
   \<and> buf (fst (WriteChunk toyCodec ((toyWriter (toyFile (replicate 16 0) noFault None))\<lparr>blen := 4\<rparr>) toyChunk))
       = replicate 4 0 @ [4, 2, 7, 9]
   \<and> view (arr (fst (WriteChunk toyCodec ((toyWriter (toyFile (replicate 16 0) noFault None))\<lparr>blen := 4\<rparr>) toyChunk))) 4 4
       = [4, 2, 7, 9]
   \<and> snd (WriteChunk toyCodec ((toyWriter (toyFile (replicate 16 0) (failAll (IOError 1)) None))\<lparr>blen := 6\<rparr>) toyChunk)
       = Some (IOError 1)
   \<and> lookups (fst (WriteChunk toyCodec ((toyWriter (toyFile (replicate 16 0) (failAll (IOError 1)) None))\<lparr>blen := 6\<rparr>) toyChunk)) 7
       = None"
proof -
  define wA where "wA = (toyWriter (toyFile (replicate 16 0) noFault None))\<lparr>blen := 4\<rparr>"
  define wC where "wC = (toyWriter (toyFile (replicate 16 0) (failAll (IOError 1)) None))\<lparr>blen := 6\<rparr>"
  have sel: "arr wA = replicate 8 0" "blen wA = 4" "off wA = 0" "lookups wA = Map.empty"
            "oplog (wfile wA) = []" "offset wA = 4" "lookups wC = Map.empty"
    by (simp_all add: wA_def wC_def toyWriter_def toyFile_def offset_def)
  have cdc: "chunkRecordSize toyCodec toyChunk = (4, 3)" "rootHashRecordSize toyCodec = 3"
            "\<And>v. writeChunkRecord toyCodec v toyChunk = [4, 2, 7, 9]" "H toyChunk = 7"
    by (simp_all add: toyCodec_def toyChunk_def)
  have g3: "getBytes wA 3 = (wA\<lparr>blen := 7\<rparr>, Inr (4, 3))"
    by (simp add: wA_def getBytes_def toyWriter_def)
  have g4: "getBytes wA 4 = (wA\<lparr>blen := 8\<rparr>, Inr (4, 4))"
    by (simp add: wA_def getBytes_def toyWriter_def)
  have cA: "snd (WriteChunk toyCodec wA toyChunk) = None"
    by (simp add: WriteChunk_def g4 cdc)
  have cC: "snd (WriteChunk toyCodec wC toyChunk) = Some (IOError 1)"
    by (simp add: wC_def WriteChunk_def getBytes_def flush_def fileWriteAt_def logop_def buf_def
          toyCodec_def toyChunk_def toyWriter_def toyFile_def failAll_def)
  have rA: "snd (WriteRootHash toyCodec wA 5) = None"
    by (simp add: wA_def WriteRootHash_def getBytes_def flush_def fileWriteAt_def fileSync_def
          logop_def buf_def overlay_def view_def toyCodec_def toyWriter_def toyFile_def noFault_def)
  show ?thesis
    unfolding wA_def [symmetric] wC_def [symmetric]
    using C6_root_hash_is_the_barrier [where wr = wA and cd = toyCodec and cc = toyChunk and h = 5]
          C6_root_hash_is_the_barrier
            [where wr = wC and cd = toyCodec and cc = toyChunk and e = "IOError 1"]
    by (simp add: sel cdc g3 g4 cA cC rA buf_def view_def overlay_def getBytes_keeps)
qed

subsection \<open>Reads past the logical end\<close>

text \<open>
  C4 as stated: for every offset and destination length that reach past the logical end,
  \<open>ReadAt\<close> returns the short count of the bytes that exist. It does not for an offset
  beyond the logical end: with \<open>off = 0\<close> and two bytes in the buffer, a read of four
  bytes at offset 5 takes the buffer branch, where \<open>wr.buf[5:]\<close> is out of range.
\<close>

theorem C4_ReadAt_beyond_end_counterexample:
  "offset ((toyWriter (toyFile (replicate 16 0) noFault None))\<lparr>blen := 2\<rparr>) < 5 + 4
   \<and> ReadAt ((toyWriter (toyFile (replicate 16 0) noFault None))\<lparr>blen := 2\<rparr>)
        [0, 0, 0, 0] 5 = Inl PanicSliceBounds"
  by (simp add: ReadAt_def toyWriter_def toyFile_def noFault_def failAt_def failAll_def failFrom_def offset_def buf_def)

lemma length_buf: "blen wr \<le> length (arr wr) \<Longrightarrow> length (buf wr) = blen wr"
  by (simp add: buf_def)

lemma ReadAt_buffer_branch:
  assumes wf: "blen wr \<le> length (arr wr)"
    and lo: "off wr \<le> i" and hi: "i \<le> offset wr" and past: "offset wr < i + int (length p)"
  shows "ReadAt wr p i
       = Inr (drop (nat (i - off wr)) (buf wr) @ drop (nat (offset wr - i)) p, nat (offset wr - i))"
proof -
  have lb: "length (buf wr) = blen wr" using wf by (rule length_buf)
  have k: "min (length p) (blen wr - nat (i - off wr)) = nat (offset wr - i)"
    using lo hi past by (auto simp: offset_def)
  have k2: "blen wr - nat (i - off wr) = nat (offset wr - i)"
    using lo hi by (auto simp: offset_def)
  have k3: "nat (offset wr - i) \<le> length p" using past hi by auto
  show ?thesis
    using lo hi lb k2 k3
    by (simp add: ReadAt_def copy_def Let_def offset_def min_def)
qed

lemma ReadAt_file_branch:
  assumes wf: "blen wr \<le> length (arr wr)"
    and lo: "0 \<le> i" and hi: "i < off wr" and past: "offset wr < i + int (length p)"
    and rf: "rfault (wfile wr) = None" and fl: "nat (off wr) \<le> length (fdata (wfile wr))"
  shows "ReadAt wr p i
       = Inr (take (nat (off wr - i)) (drop (nat i) (fdata (wfile wr))) @ buf wr
                @ drop (nat (offset wr - i)) p,
              nat (offset wr - i))"
proof -
  have lb: "length (buf wr) = blen wr" using wf by (rule length_buf)
  define fread where "fread = nat (off wr - i)"
  have fr: "0 < fread" "fread < length p" using hi past by (auto simp: fread_def offset_def)
  have p1: "take fread p \<noteq> []" using fr by auto
  have rd: "fileReadAt (wfile wr) (take fread p) i
              = Inr (take fread (drop (nat i) (fdata (wfile wr))))"
    using lo p1 rf fl fr hi by (auto simp: fileReadAt_def fread_def min_def)
  have lq: "length (take fread (drop (nat i) (fdata (wfile wr)))) = fread"
    using fl lo hi by (auto simp: fread_def)
  have bl: "blen wr \<le> length p - fread" using past hi by (auto simp: fread_def offset_def)
  have cp: "copy (drop fread p) (buf wr) = (buf wr @ drop (fread + blen wr) p, blen wr)"
    using lb bl by (simp add: copy_def Let_def min_def add.commute)
  have e: "nat (offset wr - i) = fread + blen wr" using hi by (auto simp: fread_def offset_def)
  show ?thesis
    using hi fr rd cp lq e
    by (simp add: ReadAt_def Let_def fread_def [symmetric])
qed

text \<open>
  C4, amended. For an offset \<open>i\<close> inside the buffered part, \<open>off \<le> i \<le> off + len(buf)\<close>,
  and a destination reaching past the logical end, \<open>ReadAt\<close> copies exactly the buffer
  bytes from \<open>i - off\<close> on, leaves the rest of the destination untouched and returns
  the count \<open>off + len(buf) - i\<close> with no error. For \<open>0 \<le> i < off\<close> the same holds with
  the file bytes \<open>[i, off)\<close> followed by the whole buffer, when the file's positional
  read does not fail and the file holds \<open>off\<close> bytes.
\<close>

theorem C4_ReadAt_short_count:
  "(blen wr \<le> length (arr wr) \<and> off wr \<le> i \<and> i \<le> offset wr \<and> offset wr < i + int (length p) \<longrightarrow>
      ReadAt wr p i
        = Inr (drop (nat (i - off wr)) (buf wr) @ drop (nat (offset wr - i)) p, nat (offset wr - i)))
   \<and> (blen wr \<le> length (arr wr) \<and> 0 \<le> i \<and> i < off wr \<and> offset wr < i + int (length p)
        \<and> rfault (wfile wr) = None \<and> nat (off wr) \<le> length (fdata (wfile wr)) \<longrightarrow>
      ReadAt wr p i
        = Inr (take (nat (off wr - i)) (drop (nat i) (fdata (wfile wr))) @ buf wr
                 @ drop (nat (offset wr - i)) p,
               nat (offset wr - i)))"
  using ReadAt_buffer_branch [of wr i p] ReadAt_file_branch [of wr i p] by blast

theorem C4_ReadAt_short_count_witness:
  "ReadAt ((toyWriter (toyFile [1, 2, 3, 4] noFault None))\<lparr>arr := [5, 6, 7, 0, 0, 0, 0, 0], blen := 3, off := 4\<rparr>)
      [9, 9, 9, 9] 5 = Inr ([6, 7, 9, 9], 2)
   \<and> ReadAt ((toyWriter (toyFile [1, 2, 3, 4] noFault None))\<lparr>arr := [5, 6, 7, 0, 0, 0, 0, 0], blen := 3, off := 4\<rparr>)
      [9, 9, 9, 9, 9, 9, 9, 9] 2 = Inr ([3, 4, 5, 6, 7, 9, 9, 9], 5)"
  using C4_ReadAt_short_count
          [where wr = "(toyWriter (toyFile [1, 2, 3, 4] noFault None))\<lparr>arr := [5, 6, 7, 0, 0, 0, 0, 0], blen := 3, off := 4\<rparr>"
             and p = "[9, 9, 9, 9]" and i = 5]
        C4_ReadAt_short_count
          [where wr = "(toyWriter (toyFile [1, 2, 3, 4] noFault None))\<lparr>arr := [5, 6, 7, 0, 0, 0, 0, 0], blen := 3, off := 4\<rparr>"
             and p = "[9, 9, 9, 9, 9, 9, 9, 9]" and i = 2]
  by (simp add: toyWriter_def toyFile_def noFault_def failAt_def failAll_def failFrom_def offset_def buf_def)

subsection \<open>Creating and opening the journal file\<close>

text \<open>
  C8 as stated: \<open>create\<close> fails with the directory error when the path is a directory.
  It fails with the already-exists error instead: \<open>createJournalWriter\<close> only asks
  whether \<open>os.Stat\<close> succeeds and never looks at \<open>IsDir\<close>.
\<close>

theorem C8_create_on_directory_counterexample:
  "createJournalWriter (toyEnv [''/d'' \<mapsto> Directory]) ''/d'' = Inl ErrAlreadyExists"
  by (simp add: createJournalWriter_def osStat_def toyEnv_def noFault_def)

lemma pwrite_at_end: "pwrite d (length d) b = d @ b"
  by (simp add: pwrite_def)

lemma fileSize_batches: "chunkJournalFileSize = 256 * batch"
  by (simp add: chunkJournalFileSize_def batch_def)

lemma batch_pos: "0 < batch"
  by (simp add: batch_def)

lemma zeroFill_all:
  "(\<forall>k. fault f k = None) \<Longrightarrow> fpos f = length (fdata f) \<Longrightarrow> j + m = 256 \<Longrightarrow>
     zeroFill f (j * batch)
       = (f\<lparr>fdata := fdata f @ replicate (m * batch) 0,
             fpos := fpos f + m * batch,
             oplog := oplog f @ replicate m (OpWrite batch)\<rparr>, None)"
proof (induction m arbitrary: f j)
  case 0
  then have "\<not> j * batch < chunkJournalFileSize" by (simp add: fileSize_batches)
  then show ?case by (subst zeroFill.simps) simp
next
  case (Suc m)
  have lt: "j * batch < chunkJournalFileSize"
    using Suc.prems(3) batch_pos by (simp add: fileSize_batches)
  define f1 where "f1 = (logop f (OpWrite (length (replicate batch (0::byte)))))
      \<lparr>fdata := pwrite (fdata f) (fpos f) (replicate batch 0), fpos := fpos f + batch\<rparr>"
  have w: "fileWrite f (replicate batch 0) = (f1, batch, None)"
    using Suc.prems(1) by (simp add: fileWrite_def Let_def f1_def)
  have f1a: "\<forall>k. fault f1 k = None" using Suc.prems(1) by (simp add: f1_def logop_def)
  have f1d: "fdata f1 = fdata f @ replicate batch 0"
    using Suc.prems(2) by (simp add: f1_def logop_def pwrite_at_end)
  have f1b: "fpos f1 = length (fdata f1)" using Suc.prems(2) f1d by (simp add: f1_def logop_def)
  have f1c: "Suc j + m = 256" using Suc.prems(3) by simp
  have step: "zeroFill f (j * batch) = zeroFill f1 (Suc j * batch)"
    using lt w by (subst zeroFill.simps) (simp add: add.commute)
  have r: "replicate batch (0::byte) @ replicate (m * batch) 0 = replicate (Suc m * batch) 0"
    by (simp add: replicate_add [symmetric])
  show ?case
    unfolding step Suc.IH [OF f1a f1b f1c]
    using f1d r by (simp add: f1_def logop_def replicate_append_same)
qed

lemma zeroFill_fresh:
  "(\<forall>k. flt k = None) \<Longrightarrow>
     zeroFill \<lparr>fdata = [], fpos = 0, oplog = [], fault = flt, rfault = rf\<rparr> 0
       = (\<lparr>fdata = replicate chunkJournalFileSize 0, fpos = chunkJournalFileSize,
           oplog = replicate 256 (OpWrite batch), fault = flt, rfault = rf\<rparr>, None)"
  using zeroFill_all [of "\<lparr>fdata = [], fpos = 0, oplog = [], fault = flt, rfault = rf\<rparr>" 0 256]
  by (simp add: fileSize_batches)

text \<open>
  C8, amended. When the path exists, as a regular file or as a directory, \<open>create\<close>
  fails with the already-exists error. When it does not exist (and no system call
  fails) \<open>create\<close> makes the file, zero-fills it with 256 writes of one batch (1 MiB)
  each up to the pre-allocated size, fsyncs, seeks to 0 and only then constructs the
  writer. \<open>open\<close> on an absent path returns \<open>(nil, false, nil)\<close>, and \<open>open\<close> on a
  directory fails with the directory error.
\<close>

theorem C8_create_and_open:
  "(absPath env p0 = Inr p \<and> statErr env = None \<and> nodes env p \<noteq> None \<longrightarrow>
      createJournalWriter env p0 = Inl ErrAlreadyExists)
   \<and> (absPath env p0 = Inr p \<and> statErr env = None \<and> nodes env p = None \<and> openErr env = None
        \<and> (\<forall>k. newFault env k = None) \<longrightarrow>
      createJournalWriter env p0
        = Inr (newJournalWriter
                 \<lparr>fdata = replicate chunkJournalFileSize 0, fpos = 0,
                  oplog = replicate 256 (OpWrite batch) @ [OpSync, OpSeek 0],
                  fault = newFault env, rfault = newRfault env\<rparr> p))
   \<and> (absPath env p0 = Inr p \<and> statErr env = None \<and> nodes env p = None \<longrightarrow>
      openJournalWriter env p0 = (None, False, None))
   \<and> (absPath env p0 = Inr p \<and> statErr env = None \<and> nodes env p = Some Directory \<longrightarrow>
      openJournalWriter env p0 = (None, True, Some ErrFoundDirectory))"
proof (intro conjI impI)
  assume "absPath env p0 = Inr p \<and> statErr env = None \<and> nodes env p \<noteq> None"
  then show "createJournalWriter env p0 = Inl ErrAlreadyExists"
    by (auto simp: createJournalWriter_def osStat_def)
next
  assume h: "absPath env p0 = Inr p \<and> statErr env = None \<and> nodes env p = None \<and> openErr env = None
        \<and> (\<forall>k. newFault env k = None)"
  then have z: "zeroFill \<lparr>fdata = [], fpos = 0, oplog = [], fault = newFault env, rfault = newRfault env\<rparr> 0
       = (\<lparr>fdata = replicate chunkJournalFileSize 0, fpos = chunkJournalFileSize,
           oplog = replicate 256 (OpWrite batch), fault = newFault env, rfault = newRfault env\<rparr>, None)"
    by (simp add: zeroFill_fresh)
  show "createJournalWriter env p0
        = Inr (newJournalWriter
                 \<lparr>fdata = replicate chunkJournalFileSize 0, fpos = 0,
                  oplog = replicate 256 (OpWrite batch) @ [OpSync, OpSeek 0],
                  fault = newFault env, rfault = newRfault env\<rparr> p)"
    using h z
    by (simp add: createJournalWriter_def osStat_def osOpenFile_def fileSync_def
          fileSeekStart_def logop_def Let_def)
next
  assume "absPath env p0 = Inr p \<and> statErr env = None \<and> nodes env p = None"
  then show "openJournalWriter env p0 = (None, False, None)"
    by (simp add: openJournalWriter_def osStat_def)
next
  assume "absPath env p0 = Inr p \<and> statErr env = None \<and> nodes env p = Some Directory"
  then show "openJournalWriter env p0 = (None, True, Some ErrFoundDirectory)"
    by (simp add: openJournalWriter_def osStat_def)
qed

theorem C8_create_and_open_witness:
  "createJournalWriter (toyEnv [''/j'' \<mapsto> RegularFile []]) ''/j'' = Inl ErrAlreadyExists
   \<and> createJournalWriter (toyEnv Map.empty) ''/j''
       = Inr (newJournalWriter
                \<lparr>fdata = replicate chunkJournalFileSize 0, fpos = 0,
                 oplog = replicate 256 (OpWrite batch) @ [OpSync, OpSeek 0],
                 fault = noFault, rfault = None\<rparr> ''/j'')
   \<and> openJournalWriter (toyEnv Map.empty) ''/j'' = (None, False, None)
   \<and> openJournalWriter (toyEnv [''/d'' \<mapsto> Directory]) ''/d'' = (None, True, Some ErrFoundDirectory)"
  using C8_create_and_open [where env = "toyEnv [''/j'' \<mapsto> RegularFile []]" and ?p0.0 = "''/j''" and p = "''/j''"]
        C8_create_and_open [where env = "toyEnv Map.empty" and ?p0.0 = "''/j''" and p = "''/j''"]
        C8_create_and_open [where env = "toyEnv [''/d'' \<mapsto> Directory]" and ?p0.0 = "''/d''" and p = "''/d''"]
  by (simp add: toyEnv_def noFault_def)

subsection \<open>Replay\<close>

lemma scan_collect_acc:
  "processJournalRecords frame d collect i acc
     = (acc @ fst (processJournalRecords frame d collect i []),
        fst (snd (processJournalRecords frame d collect i [])), None)"
proof (induction "length d - i" arbitrary: i acc rule: less_induct)
  case less
  show ?case
  proof (cases "frame (drop i d)")
    case None
    then show ?thesis by (simp add: processJournalRecords.simps [of frame d collect i])
  next
    case (Some r)
    show ?thesis
    proof (cases "reclen r = 0 \<or> length d < i + reclen r")
      case True
      then show ?thesis using Some by (simp add: processJournalRecords.simps [of frame d collect i])
    next
      case False
      then have m: "length d - (i + reclen r) < length d - i" by auto
      have a: "processJournalRecords frame d collect (i + reclen r) (acc @ [(int i, r)])
            = ((acc @ [(int i, r)]) @ fst (processJournalRecords frame d collect (i + reclen r) []),
               fst (snd (processJournalRecords frame d collect (i + reclen r) [])), None)"
        by (rule less [OF m])
      have b: "processJournalRecords frame d collect (i + reclen r) [(int i, r)]
            = ([(int i, r)] @ fst (processJournalRecords frame d collect (i + reclen r) []),
               fst (snd (processJournalRecords frame d collect (i + reclen r) [])), None)"
        by (rule less [OF m])
      show ?thesis using Some False a b
        by (simp add: processJournalRecords.simps [of frame d collect i] collect_def)
    qed
  qed
qed

lemma scan_as_fold:
  "processJournalRecords frame d cb i s
     = (case foldcb cb (fst (processJournalRecords frame d collect i [])) s of
          (s1, None) \<Rightarrow> (s1, fst (snd (processJournalRecords frame d collect i [])), None)
        | (s1, Some e) \<Rightarrow> (s1, 0, Some e))"
proof (induction "length d - i" arbitrary: i s rule: less_induct)
  case less
  show ?case
  proof (cases "frame (drop i d)")
    case None
    then show ?thesis
      by (simp add: processJournalRecords.simps [of frame d cb i]
            processJournalRecords.simps [of frame d collect i])
  next
    case (Some r)
    show ?thesis
    proof (cases "reclen r = 0 \<or> length d < i + reclen r")
      case True
      then show ?thesis using Some
        by (simp add: processJournalRecords.simps [of frame d cb i]
              processJournalRecords.simps [of frame d collect i])
    next
      case False
      then have m: "length d - (i + reclen r) < length d - i" by auto
      have c: "processJournalRecords frame d collect i []
            = ((int i, r) # fst (processJournalRecords frame d collect (i + reclen r) []),
               fst (snd (processJournalRecords frame d collect (i + reclen r) [])), None)"
        using Some False scan_collect_acc [of frame d "i + reclen r" "[(int i, r)]"]
        by (simp add: processJournalRecords.simps [of frame d collect i] collect_def)
      show ?thesis
      proof (cases "cb (int i) r s")
        case (Pair s1 eo)
        show ?thesis
        proof (cases eo)
          case None
          then show ?thesis using Some False Pair c less [OF m, of s1]
            by (simp add: processJournalRecords.simps [of frame d cb i])
        next
          case (Some e)
          then show ?thesis using \<open>frame (drop i d) = Some r\<close> False Pair c
            by (simp add: processJournalRecords.simps [of frame d cb i])
        qed
      qed
    qed
  qed
qed

lemma scan_framed:
  "framedFrom frame d i (fst (processJournalRecords frame d collect i []))
     (fst (snd (processJournalRecords frame d collect i [])))"
proof (induction "length d - i" arbitrary: i rule: less_induct)
  case less
  show ?case
  proof (cases "validAt frame d i")
    case False
    then show ?thesis
      by (auto simp: validAt_def processJournalRecords.simps [of frame d collect i]
               split: option.splits)
  next
    case True
    then obtain r where r: "frame (drop i d) = Some r" "0 < reclen r" "i + reclen r \<le> length d"
      by (auto simp: validAt_def split: option.splits)
    then have m: "length d - (i + reclen r) < length d - i" by auto
    have c: "processJournalRecords frame d collect i []
          = ((int i, r) # fst (processJournalRecords frame d collect (i + reclen r) []),
             fst (snd (processJournalRecords frame d collect (i + reclen r) [])), None)"
      using r scan_collect_acc [of frame d "i + reclen r" "[(int i, r)]"]
      by (simp add: processJournalRecords.simps [of frame d collect i] collect_def)
    show ?thesis using True r less [OF m] by (simp add: c)
  qed
qed

lemma foldcb_known:
  "firstUnknownKind rs = None \<Longrightarrow>
     foldcb journalCallback rs (wr, l)
       = ((wr\<lparr>lookups := replayLookups rs (lookups wr),
               uncmpSz := replayUncmpSz rs (uncmpSz wr)\<rparr>, replayLastRoot rs l), None)"
proof (induction rs arbitrary: wr l)
  case Nil
  show ?case by simp
next
  case (Cons x rs)
  obtain i r where x: "x = (i, r)" by (cases x)
  show ?case
  proof (cases "kind r")
    case chunkJournalRecKind
    then show ?thesis using Cons x by (simp add: journalCallback_def)
  next
    case rootHashJournalRecKind
    then show ?thesis using Cons x by (simp add: journalCallback_def)
  next
    case (otherJournalRecKind k)
    then show ?thesis using Cons.prems x by simp
  qed
qed

lemma foldcb_unknown:
  "firstUnknownKind rs = Some k \<Longrightarrow>
     snd (foldcb journalCallback rs st) = Some (ErrUnknownRecordKind k)"
proof (induction rs arbitrary: st)
  case Nil
  then show ?case by simp
next
  case (Cons x rs)
  obtain i r where x: "x = (i, r)" by (cases x)
  obtain wr l where st: "st = (wr, l)" by (cases st)
  show ?case
  proof (cases "kind r")
    case chunkJournalRecKind
    then show ?thesis using Cons x st by (simp add: journalCallback_def)
  next
    case rootHashJournalRecKind
    then show ?thesis using Cons x st by (simp add: journalCallback_def)
  next
    case (otherJournalRecKind k')
    then show ?thesis using Cons.prems x st by (simp add: journalCallback_def)
  qed
qed

text \<open>
  C5. \<open>ProcessJournal\<close> scans forward from offset 0 over the run of validly framed
  records. When every record is a chunk or a root hash, it leaves a lookup entry
  \<open>{offset, length, payload_offset}\<close> for each chunk record, has added each chunk's
  uncompressed payload size to \<open>uncmpSz\<close>, sets \<open>off\<close> to the offset where framing
  first becomes invalid, and returns the address of the last root-hash record, or the
  zero hash when there is none. When a record has an unrecognized kind it fails with
  the unknown-kind error of the first such record.
\<close>

theorem C5_ProcessJournal_replay:
  "framedFrom frame (fdata (wfile wr)) 0 (journalRecords frame (fdata (wfile wr)))
     (journalEnd frame (fdata (wfile wr)))
   \<and> (firstUnknownKind (journalRecords frame (fdata (wfile wr))) = None \<longrightarrow>
        ProcessJournal frame wr
          = (wr\<lparr>lookups := replayLookups (journalRecords frame (fdata (wfile wr))) (lookups wr),
                 uncmpSz := replayUncmpSz (journalRecords frame (fdata (wfile wr))) (uncmpSz wr),
                 off := journalEnd frame (fdata (wfile wr))\<rparr>,
             Inr (replayLastRoot (journalRecords frame (fdata (wfile wr))) 0)))
   \<and> (firstUnknownKind (journalRecords frame (fdata (wfile wr))) = Some k \<longrightarrow>
        snd (ProcessJournal frame wr) = Inl (ErrUnknownRecordKind k))"
proof (intro conjI impI)
  show "framedFrom frame (fdata (wfile wr)) 0 (journalRecords frame (fdata (wfile wr)))
     (journalEnd frame (fdata (wfile wr)))"
    unfolding journalRecords_def journalEnd_def by (rule scan_framed)
next
  assume h: "firstUnknownKind (journalRecords frame (fdata (wfile wr))) = None"
  show "ProcessJournal frame wr
          = (wr\<lparr>lookups := replayLookups (journalRecords frame (fdata (wfile wr))) (lookups wr),
                 uncmpSz := replayUncmpSz (journalRecords frame (fdata (wfile wr))) (uncmpSz wr),
                 off := journalEnd frame (fdata (wfile wr))\<rparr>,
             Inr (replayLastRoot (journalRecords frame (fdata (wfile wr))) 0))"
    using foldcb_known [OF h, of wr 0]
    by (simp add: ProcessJournal_def scan_as_fold [of frame _ journalCallback]
          journalRecords_def [symmetric] journalEnd_def [symmetric])
next
  assume h: "firstUnknownKind (journalRecords frame (fdata (wfile wr))) = Some k"
  show "snd (ProcessJournal frame wr) = Inl (ErrUnknownRecordKind k)"
    using foldcb_unknown [OF h, of "(wr, 0)"]
    by (auto simp: ProcessJournal_def scan_as_fold [of frame _ journalCallback]
          journalRecords_def [symmetric] journalEnd_def [symmetric] split: prod.splits option.splits)
qed


theorem C5_ProcessJournal_replay_witness:
  "firstUnknownKind (journalRecords toyFrame [4, 2, 7, 9, 3, 1, 5, 0, 0, 0]) = None
   \<and> off (fst (ProcessJournal toyFrame
               (toyWriter (toyFile [4, 2, 7, 9, 3, 1, 5, 0, 0, 0] noFault None)))) = 7
   \<and> lookups (fst (ProcessJournal toyFrame
               (toyWriter (toyFile [4, 2, 7, 9, 3, 1, 5, 0, 0, 0] noFault None)))) 7
       = Some \<lparr>journalOff = 0, recordLen = 4, payloadOff = 3\<rparr>
   \<and> uncmpSz (fst (ProcessJournal toyFrame
               (toyWriter (toyFile [4, 2, 7, 9, 3, 1, 5, 0, 0, 0] noFault None)))) = 1
   \<and> snd (ProcessJournal toyFrame
               (toyWriter (toyFile [4, 2, 7, 9, 3, 1, 5, 0, 0, 0] noFault None))) = Inr 5
   \<and> firstUnknownKind (journalRecords toyFrame [3, 9, 1, 0, 0]) = Some 9
   \<and> snd (ProcessJournal toyFrame (toyWriter (toyFile [3, 9, 1, 0, 0] noFault None)))
       = Inl (ErrUnknownRecordKind 9)"
proof -
  have a: "processJournalRecords toyFrame [4, 2, 7, 9, 3, 1, 5, 0, 0, 0] collect 0 []
         = ([(0, toyDecode [4, 2, 7, 9]), (4, toyDecode [3, 1, 5])], 7, None)"
    by (simp add: processJournalRecords.simps toyFrame_def collect_def toyDecode_def)
  have b: "processJournalRecords toyFrame [3, 9, 1, 0, 0] collect 0 []
         = ([(0, toyDecode [3, 9, 1])], 3, None)"
    by (simp add: processJournalRecords.simps toyFrame_def collect_def toyDecode_def)
  show ?thesis
    using C5_ProcessJournal_replay
            [where frame = toyFrame
               and wr = "toyWriter (toyFile [4, 2, 7, 9, 3, 1, 5, 0, 0, 0] noFault None)"]
          C5_ProcessJournal_replay
            [where frame = toyFrame
               and wr = "toyWriter (toyFile [3, 9, 1, 0, 0] noFault None)" and k = 9]
    by (simp add: journalRecords_def journalEnd_def a b toyWriter_def toyFile_def noFault_def failAt_def failAll_def failFrom_def toyDecode_def)
qed

end
